theory Spec2Isabelle
  imports Main "HOL-Library.AList" "HOL-Library.Char_ord" "HOL-Library.List_Lexorder"
    "HOL-Library.Sublist"
begin

section \<open>Qubes storage: data model of \<^verbatim>\<open>qubes/storage/__init__.py\<close>\<close>

subsection \<open>Pools\<close>

text \<open>
  The base class \<^verbatim>\<open>Pool\<close> stores \<^verbatim>\<open>name\<close> and \<^verbatim>\<open>revisions_to_keep\<close>.
  The attributes \<^verbatim>\<open>dir_path\<close>, \<^verbatim>\<open>volume_group\<close> and \<^verbatim>\<open>thin_pool\<close> belong to
  drivers; the source tests for them with \<^verbatim>\<open>hasattr\<close>, so each is an option here and
  \<open>None\<close> stands for an object without that attribute.
\<close>

record pool =
  pool_name :: string
  pool_revisions_to_keep :: int
  dir_path :: "string option"
  volume_group :: "string option"
  thin_pool :: "string option"

subsection \<open>Volumes\<close>

text \<open>
  The attributes that \<^verbatim>\<open>Volume.__init__\<close> sets. The attribute \<^verbatim>\<open>_size\<close>, read through
  the property \<^verbatim>\<open>size\<close>, is \<open>size_vol\<close>. A volume refers to its source volume, so the
  type is recursive.
\<close>

datatype volume = Volume
  (name: string)
  (pool: pool)
  (vid: string)
  (revisions_to_keep: int)
  (rw: bool)
  (save_on_stop: bool)
  (size_vol: int)
  (snap_on_start: bool)
  (source: "volume option")

subsection \<open>Python values and exceptions\<close>

text \<open>
  The objects that reach the comparison methods and the lookup of a collection, and the
  values of a config dictionary.
\<close>

datatype pyobj = PVolume volume | PPool pool | PStr string | PNone

datatype pyval = VStr string | VInt int | VBool bool

text \<open>
  The exceptions the module raises or handles. \<^verbatim>\<open>IOError\<close> is an alias of \<^verbatim>\<open>OSError\<close> in
  Python 3, so the two are one constructor. \<open>KeyboardInterrupt\<close> stands for the
  exceptions that derive from \<^verbatim>\<open>BaseException\<close> but not from \<^verbatim>\<open>Exception\<close>.
\<close>

datatype exn =
    StoragePoolException string
  | NotImplementedError string
  | KeyError pyobj
  | IndexError
  | ValueError
  | OSError string
  | AssertionError
  | KeyboardInterrupt

fun is_Exception :: "exn \<Rightarrow> bool" where
  "is_Exception KeyboardInterrupt = False"
| "is_Exception _ = True"

fun is_OSError :: "exn \<Rightarrow> bool" where
  "is_OSError (OSError _) = True"
| "is_OSError _ = False"

text \<open>The result of \<^verbatim>\<open>__eq__\<close>: a boolean, or the marker \<^verbatim>\<open>NotImplemented\<close>.\<close>

datatype eq_result = Bool bool | NotImplemented

subsection \<open>\<^verbatim>\<open>Pool.__eq__\<close>, \<^verbatim>\<open>Pool.__str__\<close>, \<^verbatim>\<open>Pool.__hash__\<close>\<close>

fun Pool_eq :: "pool \<Rightarrow> pyobj \<Rightarrow> eq_result" where
  "Pool_eq self (PPool other) = Bool (pool_name self = pool_name other)"
| "Pool_eq self (PStr other) = Bool (pool_name self = other)"
| "Pool_eq self _ = NotImplemented"

definition Pool_str :: "pool \<Rightarrow> string" where
  "Pool_str self = pool_name self"

text \<open>
  The builtin \<^verbatim>\<open>hash\<close> on strings is a parameter: its values change from one process
  to the next.
\<close>

definition Pool_hash :: "(string \<Rightarrow> int) \<Rightarrow> pool \<Rightarrow> int" where
  "Pool_hash hash self = hash (pool_name self)"

subsection \<open>\<^verbatim>\<open>Volume.__init__\<close>\<close>

text \<open>
  The parameter \<open>pool\<close> has the type of pools, so the first assertion holds. The second
  assertion compares the pools with \<^verbatim>\<open>Pool.__eq__\<close>, and fails with
  \<^verbatim>\<open>AssertionError\<close> before either check on \<^verbatim>\<open>snap_on_start\<close> runs.
\<close>

definition Volume_init ::
  "string \<Rightarrow> pool \<Rightarrow> string \<Rightarrow> int \<Rightarrow> bool \<Rightarrow> bool \<Rightarrow> int \<Rightarrow> bool \<Rightarrow> volume option
     \<Rightarrow> exn + volume" where
  "Volume_init name' pool' vid' revisions_to_keep' rw' save_on_stop' size' snap_on_start' source' =
     (if \<not> (case source' of
                None \<Rightarrow> True
              | Some src \<Rightarrow> Pool_eq (pool src) (PPool pool') = Bool True)
      then Inl AssertionError
      else if snap_on_start' \<and> source' = None
      then Inl (StoragePoolException
                  (''snap_on_start specified on '' @ name' @ '' but no volume source set''))
      else if \<not> snap_on_start' \<and> source' \<noteq> None
      then Inl (StoragePoolException
                  (''source specified on '' @ name' @ '' but no snap_on_start set''))
      else Inr (Volume name' pool' vid' revisions_to_keep' rw' save_on_stop' size'
                  snap_on_start' source'))"

text \<open>The four modes of the class docstring.\<close>

definition volatile :: "volume \<Rightarrow> bool" where
  "volatile v = (\<not> snap_on_start v \<and> \<not> save_on_stop v)"

definition snapshot :: "volume \<Rightarrow> bool" where
  "snapshot v = (snap_on_start v \<and> \<not> save_on_stop v)"

definition origin :: "volume \<Rightarrow> bool" where
  "origin v = (\<not> snap_on_start v \<and> save_on_stop v)"

definition origin_snapshot :: "volume \<Rightarrow> bool" where
  "origin_snapshot v = (snap_on_start v \<and> save_on_stop v)"

definition modes :: "volume \<Rightarrow> bool list" where
  "modes v = [volatile v, snapshot v, origin v, origin_snapshot v]"

definition is_StoragePoolException :: "exn + 'a \<Rightarrow> bool" where
  "is_StoragePoolException r = (case r of Inl (StoragePoolException _) \<Rightarrow> True | _ \<Rightarrow> False)"

subsection \<open>\<^verbatim>\<open>Volume.__eq__\<close>, \<^verbatim>\<open>Volume.__str__\<close>, \<^verbatim>\<open>Volume.__hash__\<close>\<close>

fun Volume_eq :: "volume \<Rightarrow> pyobj \<Rightarrow> eq_result" where
  "Volume_eq self (PVolume other) =
     Bool (Pool_eq (pool other) (PPool (pool self)) = Bool True \<and> vid other = vid self)"
| "Volume_eq self _ = NotImplemented"

definition Volume_str :: "volume \<Rightarrow> string" where
  "Volume_str self = vid self"

definition Volume_hash :: "(string \<Rightarrow> int) \<Rightarrow> volume \<Rightarrow> int" where
  "Volume_hash hash self = hash (Pool_str (pool self) @ '':'' @ vid self)"

subsection \<open>\<^verbatim>\<open>Volume.config\<close> and \<^verbatim>\<open>_sanitize_config\<close>\<close>

text \<open>
  A dictionary is an association list in insertion order; an assignment
  \<^verbatim>\<open>d[k] = v\<close> is \<open>AList.update\<close>, which overwrites in place or appends.
  \<^verbatim>\<open>str\<close> of an integer is its decimal numeral.
\<close>

function str_nat :: "nat \<Rightarrow> string" where
  "str_nat n =
     (if n < 10 then [''0123456789'' ! n]
      else str_nat (n div 10) @ [''0123456789'' ! (n mod 10)])"
  by pat_completeness auto
termination
  by (relation "measure id") auto

definition str_int :: "int \<Rightarrow> string" where
  "str_int i = (if i < 0 then CHR ''-'' # str_nat (nat (- i)) else str_nat (nat i))"

fun str :: "pyval \<Rightarrow> string" where
  "str (VStr s) = s"
| "str (VInt i) = str_int i"
| "str (VBool b) = (if b then ''True'' else ''False'')"

definition Volume_config :: "volume \<Rightarrow> (string \<times> pyval) list" where
  "Volume_config self =
     (let result =
            [(''name'', VStr (name self)),
             (''pool'', VStr (Pool_str (pool self))),
             (''vid'', VStr (vid self)),
             (''revisions_to_keep'', VInt (revisions_to_keep self)),
             (''rw'', VBool (rw self)),
             (''save_on_stop'', VBool (save_on_stop self)),
             (''snap_on_start'', VBool (snap_on_start self))];
          result =
            (if size_vol self \<noteq> 0
             then AList.update ''size'' (VInt (size_vol self)) result else result);
          result =
            (case source self of
               None \<Rightarrow> result
             | Some src \<Rightarrow> AList.update ''source'' (VStr (Volume_str src)) result)
      in result)"

text \<open>The loop of \<^verbatim>\<open>_sanitize_config\<close> over \<^verbatim>\<open>config.items()\<close>.\<close>

fun sanitize_items :: "(string \<times> pyval) list \<Rightarrow> (string \<times> string) list \<Rightarrow> (string \<times> string) list" where
  "sanitize_items [] result = result"
| "sanitize_items ((key, VBool b) # items) result =
     sanitize_items items (if b then AList.update key ''True'' result else result)"
| "sanitize_items ((key, val) # items) result =
     sanitize_items items (AList.update key (str val) result)"

definition sanitize_config :: "(string \<times> pyval) list \<Rightarrow> (string \<times> string) list" where
  "sanitize_config config = sanitize_items config []"

text \<open>What \<^verbatim>\<open>Volume.__xml__\<close> hands to the XML element.\<close>

definition Volume_xml_config :: "volume \<Rightarrow> (string \<times> string) list" where
  "Volume_xml_config self = sanitize_config (Volume_config self)"

text \<open>The entry of a key in a serialized dictionary, as a function of its entry before.\<close>

fun sanitized :: "pyval option \<Rightarrow> string option" where
  "sanitized None = None"
| "sanitized (Some (VBool b)) = (if b then Some ''True'' else None)"
| "sanitized (Some val) = Some (str val)"

subsection \<open>\<^verbatim>\<open>Storage.unused_frontend\<close>\<close>

definition ascii_lowercase :: string where
  "ascii_lowercase = ''abcdefghijklmnopqrstuvwxyz''"

definition AVAILABLE_FRONTENDS :: "string set" where
  "AVAILABLE_FRONTENDS = set (map (\<lambda>c. ''xvd'' @ [c]) ascii_lowercase)"

text \<open>
  \<^verbatim>\<open>used_frontends\<close> is the set of the \<^verbatim>\<open>dev\<close> attributes of the disk targets, where
  a target without the attribute contributes \<^verbatim>\<open>None\<close>. \<^verbatim>\<open>sorted\<close> orders strings
  lexicographically by character code, and the index \<^verbatim>\<open>[0]\<close> of an empty list
  raises \<^verbatim>\<open>IndexError\<close>.
\<close>

definition Storage_unused_frontend :: "string option set \<Rightarrow> exn + string" where
  "Storage_unused_frontend used_frontends =
     (let unused_frontends = Set.filter (\<lambda>f. Some f \<notin> used_frontends) AVAILABLE_FRONTENDS
      in case sorted_list_of_set unused_frontends of
           [] \<Rightarrow> Inl IndexError
         | f # _ \<Rightarrow> Inr f)"

subsection \<open>\<^verbatim>\<open>VolumesCollection\<close>\<close>

text \<open>
  A collection wraps a pool object: the pool's data and the two methods of its driver
  that the collection calls. \<^verbatim>\<open>get_volume\<close> may return \<^verbatim>\<open>None\<close>, which is why
  \<^verbatim>\<open>__contains__\<close> tests the result.
\<close>

record volumes_collection =
  wrapped_pool :: pool
  get_volume :: "string \<Rightarrow> exn + volume option"
  list_volumes :: "exn + volume list"

text \<open>The loop \<^verbatim>\<open>for vol in self: if vol.vid == item: return vol\<close>.\<close>

fun scan_volumes :: "volume list \<Rightarrow> string \<Rightarrow> volume option" where
  "scan_volumes [] item = None"
| "scan_volumes (vol # vols) item =
     (if vid vol = item then Some vol else scan_volumes vols item)"

text \<open>The branch of \<^verbatim>\<open>__getitem__\<close> for an item that is not a volume.\<close>

definition getitem_vid :: "volumes_collection \<Rightarrow> string \<Rightarrow> exn + volume option" where
  "getitem_vid self item =
     (case get_volume self item of
        Inl (NotImplementedError m) \<Rightarrow>
          (case list_volumes self of
             Inl e \<Rightarrow> Inl e
           | Inr vols \<Rightarrow>
               (case scan_volumes vols item of
                  Some vol \<Rightarrow> Inr (Some vol)
                | None \<Rightarrow> Inl (KeyError (PStr item))))
      | r \<Rightarrow> r)"

text \<open>An item is a volume or a volume identifier, as the docstring of \<^verbatim>\<open>__getitem__\<close> says.\<close>

datatype item = Item_volume volume | Item_vid string

fun VolumesCollection_getitem :: "volumes_collection \<Rightarrow> item \<Rightarrow> exn + volume option" where
  "VolumesCollection_getitem self (Item_volume item) =
     (if Pool_eq (pool item) (PPool (wrapped_pool self)) = Bool True
      then getitem_vid self (vid item)
      else Inl (KeyError (PVolume item)))"
| "VolumesCollection_getitem self (Item_vid item) = getitem_vid self item"

definition VolumesCollection_contains :: "volumes_collection \<Rightarrow> item \<Rightarrow> exn + bool" where
  "VolumesCollection_contains self item =
     (case VolumesCollection_getitem self item of
        Inr r \<Rightarrow> Inr (r \<noteq> None)
      | Inl (KeyError k) \<Rightarrow> Inr False
      | Inl e \<Rightarrow> Inl e)"

subsection \<open>State, driver methods and coroutines\<close>

text \<open>
  The state the coordinator works on: the mapping \<^verbatim>\<open>vm.volumes\<close>, the keys of
  \<^verbatim>\<open>vm.volume_config\<close>, the directory \<^verbatim>\<open>vm.dir_path\<close> on the file system (\<open>None\<close>
  when it does not exist, else the names of its entries) and a trace of the driver
  methods whose bodies ran and of the calls of \<^verbatim>\<open>log.exception\<close>, each with its
  format string and its arguments.
\<close>

type_synonym fs = "string list option"

datatype log_arg = Arg_str string | Arg_exn exn

datatype event =
    Ran_create volume
  | Ran_import_volume volume volume
  | Ran_remove volume
  | Ran_import_data volume int
  | Log_exception string "log_arg list"

record vm =
  volumes :: "(string \<times> volume) list"
  volume_config :: "string list"
  dir :: fs
  trace :: "event list"

text \<open>
  A method of a driver is a plain function or a coroutine function (the docstrings say
  "This can be implemented as a coroutine"). Its body may change the directory and
  returns or raises. Calling a plain method runs the body; calling a coroutine
  function runs nothing and returns a coroutine object, whose body runs when awaited.
\<close>

datatype 'a callable =
    Plain "fs \<Rightarrow> (exn + 'a) \<times> fs"
  | Coroutine "fs \<Rightarrow> (exn + 'a) \<times> fs"

datatype 'a awaitable = Value 'a | Coro "vm \<Rightarrow> (exn + 'a) \<times> vm"

record driver =
  init_volume :: "string \<Rightarrow> exn + volume"
  Volume_create :: "volume \<Rightarrow> unit callable"
  Volume_import_volume :: "volume \<Rightarrow> volume \<Rightarrow> unit callable"
  Volume_remove :: "volume \<Rightarrow> unit callable"
  Volume_import_data :: "volume \<Rightarrow> int \<Rightarrow> string callable"

definition run :: "event \<Rightarrow> (fs \<Rightarrow> (exn + 'a) \<times> fs) \<Rightarrow> vm \<Rightarrow> (exn + 'a) \<times> vm" where
  "run ev body s =
     (case body (dir s) of (r, d) \<Rightarrow> (r, s\<lparr>dir := d, trace := trace s @ [ev]\<rparr>))"

fun call :: "event \<Rightarrow> 'a callable \<Rightarrow> vm \<Rightarrow> (exn + 'a awaitable) \<times> vm" where
  "call ev (Plain body) s =
     (case run ev body s of
        (Inl e, s1) \<Rightarrow> (Inl e, s1)
      | (Inr x, s1) \<Rightarrow> (Inr (Value x), s1))"
| "call ev (Coroutine body) s = (Inr (Coro (run ev body)), s)"

text \<open>
  Modelled from the spec: \<^verbatim>\<open>qubes.utils.coro_maybe\<close> and
  \<^verbatim>\<open>qubes.utils.void_coros_maybe\<close>, whose module is not among the sources. Callers
  "must tolerate" an operation that blocks or suspends: awaiting \<^verbatim>\<open>coro_maybe(x)\<close> runs
  \<open>x\<close> when it is a coroutine and yields \<open>x\<close> otherwise. The bulk fan-out launches one
  task per coroutine and waits for all of them; a failure surfaces once all tasks have
  settled. The tasks run here one after the other, in the order of the list, and the
  first failure in that order is the one surfaced.
\<close>

fun coro_maybe :: "'a awaitable \<Rightarrow> vm \<Rightarrow> (exn + 'a) \<times> vm" where
  "coro_maybe (Value x) s = (Inr x, s)"
| "coro_maybe (Coro t) s = t s"

fun settle :: "'a awaitable list \<Rightarrow> vm \<Rightarrow> exn list \<times> vm" where
  "settle [] s = ([], s)"
| "settle (Value x # vs) s = settle vs s"
| "settle (Coro t # vs) s =
     (case t s of (r, s1) \<Rightarrow>
        (case settle vs s1 of (es, s2) \<Rightarrow>
           ((case r of Inl e \<Rightarrow> [e] | Inr x \<Rightarrow> []) @ es, s2)))"

definition void_coros_maybe :: "'a awaitable list \<Rightarrow> vm \<Rightarrow> (exn + unit) \<times> vm" where
  "void_coros_maybe vs s =
     (case settle vs s of
        ([], s1) \<Rightarrow> (Inr (), s1)
      | (e # es, s1) \<Rightarrow> (Inl e, s1))"

text \<open>The body of a method, whichever way it is implemented.\<close>

fun body_of :: "'a callable \<Rightarrow> fs \<Rightarrow> (exn + 'a) \<times> fs" where
  "body_of (Plain body) = body"
| "body_of (Coroutine body) = body"

text \<open>The expression \<^verbatim>\<open>await qubes.utils.coro_maybe(obj.method(...))\<close>.\<close>

definition call_await :: "event \<Rightarrow> 'a callable \<Rightarrow> vm \<Rightarrow> (exn + 'a) \<times> vm" where
  "call_await ev m s =
     (case call ev m s of
        (Inl e, s1) \<Rightarrow> (Inl e, s1)
      | (Inr a, s1) \<Rightarrow> coro_maybe a s1)"

subsection \<open>\<^verbatim>\<open>Storage.import_data\<close>\<close>

definition Storage_import_data ::
  "driver \<Rightarrow> item \<Rightarrow> int option \<Rightarrow> vm \<Rightarrow> (exn + string) \<times> vm" where
  "Storage_import_data D volume size' s =
     (case (case volume of
              Item_vid nm \<Rightarrow>
                (case map_of (volumes s) nm of
                   None \<Rightarrow> Inl (KeyError (PStr nm))
                 | Some v \<Rightarrow> Inr v)
            | Item_volume v \<Rightarrow> Inr v) of
        Inl e \<Rightarrow> (Inl e, s)
      | Inr vol \<Rightarrow>
          (let sz = (case size' of None \<Rightarrow> size_vol vol | Some n \<Rightarrow> n)
           in call_await (Ran_import_data vol sz) (Volume_import_data D vol sz) s))"

subsection \<open>\<^verbatim>\<open>Storage.remove\<close>\<close>

text \<open>
  The loop collects what each \<^verbatim>\<open>vol.remove()\<close> returns; an \<^verbatim>\<open>OSError\<close> raised by the
  call is handed to \<^verbatim>\<open>log.exception\<close>, any other exception leaves the loop and the
  method.
\<close>

fun remove_volumes ::
  "driver \<Rightarrow> volume list \<Rightarrow> unit awaitable list \<Rightarrow> vm \<Rightarrow> (exn + unit awaitable list) \<times> vm" where
  "remove_volumes D [] results s = (Inr results, s)"
| "remove_volumes D (vol # vols) results s =
     (case call (Ran_remove vol) (Volume_remove D vol) s of
        (Inr r, s1) \<Rightarrow> remove_volumes D vols (results @ [r]) s1
      | (Inl e, s1) \<Rightarrow>
          if is_OSError e
          then remove_volumes D vols results
                 (s1\<lparr>trace := trace s1 @
                    [Log_exception ''Failed to remove volume %s''
                       [Arg_str (name vol), Arg_exn e]]\<rparr>)
          else (Inl e, s1))"

definition Storage_remove :: "driver \<Rightarrow> vm \<Rightarrow> (exn + unit) \<times> vm" where
  "Storage_remove D s =
     (case remove_volumes D (map snd (volumes s)) [] s of
        (Inl e, s1) \<Rightarrow> (Inl e, s1)
      | (Inr results, s1) \<Rightarrow>
          (case void_coros_maybe results s1 of
             (Inl e, s2) \<Rightarrow>
               if is_OSError e
               then (Inr (), s2\<lparr>trace := trace s2 @
                       [Log_exception ''Failed to remove some volume'' [Arg_exn e]]\<rparr>)
               else (Inl e, s2)
           | (Inr u, s2) \<Rightarrow> (Inr (), s2)))"

text \<open>The state after \<^verbatim>\<open>log.exception("Failed to remove volume %s", vol.name, e)\<close>.\<close>

definition logged :: "volume \<Rightarrow> exn \<Rightarrow> vm \<Rightarrow> vm" where
  "logged vol e s =
     s\<lparr>trace := trace s @
        [Log_exception ''Failed to remove volume %s'' [Arg_str (name vol), Arg_exn e]]\<rparr>"

text \<open>
  What the standard \<^verbatim>\<open>logging\<close> module does with such a call: without arguments the
  message is the format string; with arguments the message is \<^verbatim>\<open>msg % args\<close>, which
  needs one argument for each conversion of the format (\<^verbatim>\<open>%%\<close> is no conversion).
  When the numbers differ the handler cannot format the record, reports a logging
  error and emits no line. \<open>directives\<close> counts the conversions of a format.
\<close>

fun directives :: "string \<Rightarrow> nat" where
  "directives [] = 0"
| "directives [c] = 0"
| "directives (c # d # cs) =
     (if c = CHR ''%''
      then (if d = CHR ''%'' then directives cs else Suc (directives cs))
      else directives (d # cs))"

fun emits :: "event \<Rightarrow> bool" where
  "emits (Log_exception fmt args) = (args = [] \<or> directives fmt = length args)"
| "emits ev = False"

subsection \<open>\<^verbatim>\<open>VmCreationManager\<close>, \<^verbatim>\<open>Storage.clone_volume\<close>, \<^verbatim>\<open>Storage.clone\<close>\<close>

text \<open>
  \<^verbatim>\<open>os.rmdir\<close> removes an empty directory and raises \<^verbatim>\<open>OSError\<close> on a directory
  that is missing or has entries.
\<close>

definition os_rmdir :: "vm \<Rightarrow> (exn + unit) \<times> vm" where
  "os_rmdir s =
     (case dir s of
        None \<Rightarrow> (Inl (OSError ''No such file or directory''), s)
      | Some [] \<Rightarrow> (Inr (), s\<lparr>dir := None\<rparr>)
      | Some (f # fs) \<Rightarrow> (Inl (OSError ''Directory not empty''), s))"

text \<open>
  The loop of \<^verbatim>\<open>__exit__\<close>: it calls \<^verbatim>\<open>volume.remove()\<close> and drops what the call
  returns, so the body of a coroutine function never runs; \<^verbatim>\<open>except Exception\<close>
  drops what a plain method raises.
\<close>

fun exit_volumes :: "driver \<Rightarrow> volume list \<Rightarrow> vm \<Rightarrow> (exn + unit) \<times> vm" where
  "exit_volumes D [] s = (Inr (), s)"
| "exit_volumes D (volume # vs) s =
     (case call (Ran_remove volume) (Volume_remove D volume) s of
        (Inr r, s1) \<Rightarrow> exit_volumes D vs s1
      | (Inl e, s1) \<Rightarrow> if is_Exception e then exit_volumes D vs s1 else (Inl e, s1))"

definition VmCreationManager_exit :: "driver \<Rightarrow> exn option \<Rightarrow> vm \<Rightarrow> (exn + unit) \<times> vm" where
  "VmCreationManager_exit D exc s =
     (case exc of
        None \<Rightarrow> (Inr (), s)
      | Some e \<Rightarrow>
          (case exit_volumes D (map snd (volumes s)) s of
             (Inl e', s1) \<Rightarrow> (Inl e', s1)
           | (Inr u, s1) \<Rightarrow> os_rmdir s1))"

text \<open>
  The statement \<^verbatim>\<open>with VmCreationManager(self.vm): body\<close>. \<^verbatim>\<open>__exit__\<close> returns
  \<^verbatim>\<open>None\<close>, so the exception of the body is raised again after it, unless \<^verbatim>\<open>__exit__\<close>
  raises itself: then its exception is the one that leaves the statement.
\<close>

definition with_VmCreationManager ::
  "driver \<Rightarrow> (vm \<Rightarrow> (exn + 'a) \<times> vm) \<Rightarrow> vm \<Rightarrow> (exn + 'a) \<times> vm" where
  "with_VmCreationManager D body s =
     (case body s of
        (Inr x, s1) \<Rightarrow>
          (case VmCreationManager_exit D None s1 of
             (Inl e', s2) \<Rightarrow> (Inl e', s2)
           | (Inr u, s2) \<Rightarrow> (Inr x, s2))
      | (Inl e, s1) \<Rightarrow>
          (case VmCreationManager_exit D (Some e) s1 of
             (Inl e', s2) \<Rightarrow> (Inl e', s2)
           | (Inr u, s2) \<Rightarrow> (Inl e, s2)))"

text \<open>
  \<^verbatim>\<open>clone_volume\<close>: \<open>init_volume D name\<close> stands for the lookup of the config and of the
  pool and for \<^verbatim>\<open>dst_pool.init_volume\<close>; \<open>src_vm\<close> is the mapping \<^verbatim>\<open>src_vm.volumes\<close>.
  The volume is registered only after \<^verbatim>\<open>create\<close> and \<^verbatim>\<open>import_volume\<close> returned.
\<close>

definition Storage_clone_volume ::
  "driver \<Rightarrow> (string \<times> volume) list \<Rightarrow> string \<Rightarrow> vm \<Rightarrow> (exn + volume) \<times> vm" where
  "Storage_clone_volume D src_vm nm s =
     (case init_volume D nm of
        Inl e \<Rightarrow> (Inl e, s)
      | Inr dst \<Rightarrow>
          (case map_of src_vm nm of
             None \<Rightarrow> (Inl (KeyError (PStr nm)), s)
           | Some src_volume \<Rightarrow>
               (case call_await (Ran_create dst) (Volume_create D dst) s of
                  (Inl e, s1) \<Rightarrow> (Inl e, s1)
                | (Inr u, s1) \<Rightarrow>
                    (case call_await (Ran_import_volume dst src_volume)
                            (Volume_import_volume D dst src_volume) s1 of
                       (Inl e, s2) \<Rightarrow> (Inl e, s2)
                     | (Inr u', s2) \<Rightarrow>
                         (Inr dst, s2\<lparr>volumes := AList.update nm dst (volumes s2)\<rparr>)))))"

definition clone_tasks :: "driver \<Rightarrow> (string \<times> volume) list \<Rightarrow> string list \<Rightarrow> volume awaitable list" where
  "clone_tasks D src_vm names = map (\<lambda>vol_name. Coro (Storage_clone_volume D src_vm vol_name)) names"

definition Storage_clone :: "driver \<Rightarrow> (string \<times> volume) list \<Rightarrow> vm \<Rightarrow> (exn + unit) \<times> vm" where
  "Storage_clone D src_vm s =
     with_VmCreationManager D
       (void_coros_maybe (clone_tasks D src_vm (volume_config s)))
       (s\<lparr>volumes := []\<rparr>)"

subsection \<open>\<^verbatim>\<open>search_pool_containing_dir\<close>\<close>

text \<open>
  \<^verbatim>\<open>str.split\<close> and \<^verbatim>\<open>str.join\<close> with a one-character separator, and
  \<^verbatim>\<open>os.path.commonpath\<close> of two POSIX paths: the paths are split at \<^verbatim>\<open>/\<close>, empty and
  \<^verbatim>\<open>.\<close> components are dropped, and the common prefix of the smaller and the larger
  component list is joined again. Mixing an absolute and a relative path raises
  \<^verbatim>\<open>ValueError\<close>.
\<close>

fun split :: "char \<Rightarrow> string \<Rightarrow> string list" where
  "split sep [] = [[]]"
| "split sep (c # cs) =
     (if c = sep then [] # split sep cs
      else (c # hd (split sep cs)) # tl (split sep cs))"

fun join :: "char \<Rightarrow> string list \<Rightarrow> string" where
  "join sep [] = []"
| "join sep [x] = x"
| "join sep (x # y # ys) = x @ sep # join sep (y # ys)"

definition components :: "string \<Rightarrow> string list" where
  "components path = filter (\<lambda>c. c \<noteq> [] \<and> c \<noteq> ''.'') (split CHR ''/'' path)"

text \<open>
  The loop \<^verbatim>\<open>for i, c in enumerate(s1): if c != s2[i]: common = s1[:i]; break\<close>. The index
  \<^verbatim>\<open>s2[i]\<close> past the end of \<open>s2\<close> raises \<^verbatim>\<open>IndexError\<close>.
\<close>

fun common_prefix :: "string list \<Rightarrow> string list \<Rightarrow> exn + string list" where
  "common_prefix [] s2 = Inr []"
| "common_prefix (c # s1) [] = Inl IndexError"
| "common_prefix (c # s1) (d # s2) =
     (if c \<noteq> d then Inr []
      else (case common_prefix s1 s2 of Inl e \<Rightarrow> Inl e | Inr common \<Rightarrow> Inr (c # common)))"

definition isabs :: "string \<Rightarrow> bool" where
  "isabs path = (take 1 path = ''/'')"

definition commonpath :: "string \<Rightarrow> string \<Rightarrow> exn + string" where
  "commonpath p q =
     (if isabs p \<noteq> isabs q then Inl ValueError
      else
        (let s1 = min (components p) (components q);
             s2 = max (components p) (components q)
         in case common_prefix s1 s2 of
              Inl e \<Rightarrow> Inl e
            | Inr common \<Rightarrow> Inr ((if isabs p then ''/'' else []) @ join CHR ''/'' common)))"

text \<open>
  The first loop. \<open>realpath\<close> is \<^verbatim>\<open>os.path.realpath\<close>, which resolves symbolic links on
  the file system and is a parameter.
\<close>

fun filesystem_pools :: "(string \<Rightarrow> string) \<Rightarrow> string \<Rightarrow> pool list \<Rightarrow> exn + pool option" where
  "filesystem_pools realpath real_dir_path [] = Inr None"
| "filesystem_pools realpath real_dir_path (p # pools) =
     (case dir_path p of
        None \<Rightarrow> filesystem_pools realpath real_dir_path pools
      | Some d \<Rightarrow>
          (let pool_real_dir_path = realpath d
           in case commonpath pool_real_dir_path real_dir_path of
                Inl e \<Rightarrow> Inl e
              | Inr c \<Rightarrow>
                  if c = pool_real_dir_path then Inr (Some p)
                  else filesystem_pools realpath real_dir_path pools))"

text \<open>
  The second loop. \<open>thin_pool_of\<close> is \<^verbatim>\<open>DirectoryThinPool.thin_pool\<close>, which reads the
  device-mapper table of the host and is a parameter: the pair of the volume group and
  the thin pool of a directory, or \<^verbatim>\<open>(None, None)\<close>.
\<close>

fun lvm_pools ::
  "(string \<Rightarrow> string option \<times> string option) \<Rightarrow> string \<Rightarrow> pool list \<Rightarrow> pool option" where
  "lvm_pools thin_pool_of real_dir_path [] = None"
| "lvm_pools thin_pool_of real_dir_path (p # pools) =
     (case (thin_pool p, volume_group p) of
        (Some t, Some g) \<Rightarrow>
          if (Some g, Some t) = thin_pool_of real_dir_path then Some p
          else lvm_pools thin_pool_of real_dir_path pools
      | _ \<Rightarrow> lvm_pools thin_pool_of real_dir_path pools)"

definition search_pool_containing_dir ::
  "(string \<Rightarrow> string) \<Rightarrow> (string \<Rightarrow> string option \<times> string option) \<Rightarrow> pool list \<Rightarrow> string
     \<Rightarrow> exn + pool option" where
  "search_pool_containing_dir realpath thin_pool_of pools dir_path' =
     (let real_dir_path = realpath dir_path'
      in case filesystem_pools realpath real_dir_path pools of
           Inl e \<Rightarrow> Inl e
         | Inr (Some p) \<Rightarrow> Inr (Some p)
         | Inr None \<Rightarrow> Inr (lvm_pools thin_pool_of real_dir_path pools))"

text \<open>
  The words of the specification for this search. A path is a path-prefix ancestor of
  another when its components are a prefix of the other's components; a pool is
  filesystem-backed when it has a \<^verbatim>\<open>dir_path\<close>, and matches when its real directory
  is such an ancestor of the real path of the candidate; a thin-provisioned pool
  matches when its pair of volume group and thin pool is the one resolved for the
  candidate. \<open>canonical\<close> says what \<^verbatim>\<open>os.path.realpath\<close> returns: an absolute path
  made of its own components, with single separators.
\<close>

definition path_ancestor :: "string \<Rightarrow> string \<Rightarrow> bool" where
  "path_ancestor p q = prefix (components p) (components q)"

definition filesystem_match :: "(string \<Rightarrow> string) \<Rightarrow> string \<Rightarrow> pool \<Rightarrow> bool" where
  "filesystem_match realpath real_dir_path p =
     (case dir_path p of
        None \<Rightarrow> False
      | Some d \<Rightarrow> path_ancestor (realpath d) real_dir_path)"

definition thin_match ::
  "(string \<Rightarrow> string option \<times> string option) \<Rightarrow> string \<Rightarrow> pool \<Rightarrow> bool" where
  "thin_match thin_pool_of real_dir_path p =
     (case (volume_group p, thin_pool p) of
        (Some g, Some t) \<Rightarrow> thin_pool_of real_dir_path = (Some g, Some t)
      | _ \<Rightarrow> False)"

definition canonical :: "(string \<Rightarrow> string) \<Rightarrow> bool" where
  "canonical realpath =
     (\<forall>path. realpath path = CHR ''/'' # join CHR ''/'' (components (realpath path)))"

definition search_spec ::
  "(string \<Rightarrow> string) \<Rightarrow> (string \<Rightarrow> string option \<times> string option) \<Rightarrow> pool list \<Rightarrow> string
     \<Rightarrow> pool option" where
  "search_spec realpath thin_pool_of pools dir_path' =
     (case find (filesystem_match realpath (realpath dir_path')) pools of
        Some p \<Rightarrow> Some p
      | None \<Rightarrow> find (thin_match thin_pool_of (realpath dir_path')) pools)"

text \<open>
  Properties of a task, a coroutine that awaits on the state: it only extends the
  trace; it records an event in the trace; whatever it raises is an \<^verbatim>\<open>OSError\<close>.
\<close>

definition monotone_task :: "(vm \<Rightarrow> (exn + 'a) \<times> vm) \<Rightarrow> bool" where
  "monotone_task t = (\<forall>s. prefix (trace s) (trace (snd (t s))))"

definition records :: "event \<Rightarrow> (vm \<Rightarrow> (exn + 'a) \<times> vm) \<Rightarrow> bool" where
  "records ev t = (\<forall>s. ev \<in> set (trace (snd (t s))))"

definition raises_only_OSError :: "(vm \<Rightarrow> (exn + 'a) \<times> vm) \<Rightarrow> bool" where
  "raises_only_OSError t = (\<forall>s e. fst (t s) = Inl e \<longrightarrow> is_OSError e)"

text \<open>
  A property of a task lifted to what a call returned: \<open>on_task\<close> holds of every plain
  value, \<open>is_task\<close> of none.
\<close>

fun on_task :: "((vm \<Rightarrow> (exn + 'a) \<times> vm) \<Rightarrow> bool) \<Rightarrow> 'a awaitable \<Rightarrow> bool" where
  "on_task P (Value x) = True"
| "on_task P (Coro t) = P t"

fun is_task :: "((vm \<Rightarrow> (exn + 'a) \<times> vm) \<Rightarrow> bool) \<Rightarrow> 'a awaitable \<Rightarrow> bool" where
  "is_task P (Value x) = False"
| "is_task P (Coro t) = P t"

text \<open>
  Hypotheses on the \<^verbatim>\<open>remove\<close> of a volume for the rollback: it is a plain method
  whose exceptions derive from \<^verbatim>\<open>Exception\<close>; it is a coroutine function.
\<close>

definition plain_remove :: "driver \<Rightarrow> volume \<Rightarrow> bool" where
  "plain_remove D v =
     (\<exists>b. Volume_remove D v = Plain b \<and> (\<forall>d e d'. b d = (Inl e, d') \<longrightarrow> is_Exception e))"

definition coroutine_remove :: "driver \<Rightarrow> volume \<Rightarrow> bool" where
  "coroutine_remove D v = (\<exists>b. Volume_remove D v = Coroutine b)"

text \<open>
  A hypothesis on a driver: whatever the body of \<^verbatim>\<open>remove\<close> of a volume raises is
  an \<^verbatim>\<open>OSError\<close>.
\<close>

definition remove_raises_only_OSError :: "driver \<Rightarrow> volume \<Rightarrow> bool" where
  "remove_raises_only_OSError D v =
     (\<forall>d e d'. body_of (Volume_remove D v) d = (Inl e, d') \<longrightarrow> is_OSError e)"

section \<open>Concrete pools, volumes and drivers\<close>

text \<open>Two pools, a second pool object with the name of the first, and volumes in them.\<close>

definition pool_a :: pool where
  "pool_a = \<lparr>pool_name = ''a'', pool_revisions_to_keep = 1, dir_path = None,
     volume_group = None, thin_pool = None\<rparr>"

definition pool_a2 :: pool where
  "pool_a2 = \<lparr>pool_name = ''a'', pool_revisions_to_keep = 3, dir_path = Some ''/var/lib/qubes'',
     volume_group = None, thin_pool = None\<rparr>"

definition pool_b :: pool where
  "pool_b = \<lparr>pool_name = ''b'', pool_revisions_to_keep = 1, dir_path = None,
     volume_group = None, thin_pool = None\<rparr>"

definition tpl_root :: volume where
  "tpl_root = Volume ''root'' pool_a ''tpl/root'' 0 False True 10 False None"

definition vm_root :: volume where
  "vm_root = Volume ''root'' pool_a ''vm/root'' 0 False False 10 True (Some tpl_root)"

definition vm_root_alias :: volume where
  "vm_root_alias = Volume ''private'' pool_a2 ''vm/root'' 2 True True 0 False None"

definition vm_private :: volume where
  "vm_private = Volume ''private'' pool_a ''vm/private'' 0 True True 20 False None"

definition other_root :: volume where
  "other_root = Volume ''root'' pool_b ''tpl/root'' 0 False True 10 False None"

definition length_hash :: "string \<Rightarrow> int" where
  "length_hash s = int (length s)"

text \<open>A set of used frontends, with a target that has no \<^verbatim>\<open>dev\<close> attribute.\<close>

definition used_ab :: "string option set" where
  "used_ab = {Some ''xvda'', Some ''xvdb'', None}"

text \<open>
  A pool whose driver implements \<^verbatim>\<open>list_volumes\<close> only, and one whose driver
  implements \<^verbatim>\<open>get_volume\<close>.
\<close>

definition listing_collection :: volumes_collection where
  "listing_collection =
     \<lparr>wrapped_pool = pool_a,
      get_volume = (\<lambda>vid. Inl (NotImplementedError ''get_volume'')),
      list_volumes = Inr [tpl_root, vm_root, vm_private]\<rparr>"

definition getting_collection :: volumes_collection where
  "getting_collection =
     \<lparr>wrapped_pool = pool_a,
      get_volume = (\<lambda>vid. if vid = ''vm/root'' then Inr (Some vm_root) else Inl (KeyError (PStr vid))),
      list_volumes = Inl (NotImplementedError ''list_volumes'')\<rparr>"

text \<open>
  A state with two registered volumes and an empty directory, the volumes of a source
  VM, and a driver that keeps one image file per volume in the directory of the VM:
  its methods are plain functions, and \<^verbatim>\<open>import_volume\<close> fails for the volume
  \<^verbatim>\<open>private\<close>.
\<close>

definition tpl_private :: volume where
  "tpl_private = Volume ''private'' pool_a ''tpl/private'' 0 True True 20 False None"

definition src_vm_volumes :: "(string \<times> volume) list" where
  "src_vm_volumes = [(''root'', tpl_root), (''private'', tpl_private)]"

definition vm_two :: vm where
  "vm_two = \<lparr>volumes = [(''root'', vm_root), (''private'', vm_private)],
     volume_config = [''root'', ''private''], dir = Some [], trace = []\<rparr>"

definition file_driver :: driver where
  "file_driver =
     \<lparr>init_volume =
        (\<lambda>nm. if nm = ''root'' then Inr vm_root
              else if nm = ''private'' then Inr vm_private
              else Inl (KeyError (PStr nm))),
      Volume_create =
        (\<lambda>v. Plain (\<lambda>d. (Inr (), map_option (\<lambda>entries. entries @ [name v @ ''.img'']) d))),
      Volume_import_volume =
        (\<lambda>v src. Plain (\<lambda>d. (if name v = ''private''
                                then Inl (StoragePoolException ''import failed'')
                                else Inr (), d))),
      Volume_remove =
        (\<lambda>v. Plain (\<lambda>d. (Inr (), map_option (remove1 (name v @ ''.img'')) d))),
      Volume_import_data =
        (\<lambda>v n. Plain (\<lambda>d. (Inr (''/var/lib/qubes/'' @ vid v @ ''.import''), d)))\<rparr>"

text \<open>
  A file system without symbolic links, on which \<^verbatim>\<open>realpath\<close> only normalises; a
  filesystem-backed pool and a thin-provisioned pool; a host whose directories all lie
  on the thin pool \<^verbatim>\<open>qubes_dom0/pool00\<close>, and a host without thin pools.
\<close>

definition plain_realpath :: "string \<Rightarrow> string" where
  "plain_realpath path = CHR ''/'' # join CHR ''/'' (components path)"

definition pool_fs :: pool where
  "pool_fs = \<lparr>pool_name = ''P1'', pool_revisions_to_keep = 1, dir_path = Some ''/data/pool1'',
     volume_group = None, thin_pool = None\<rparr>"

definition pool_thin :: pool where
  "pool_thin = \<lparr>pool_name = ''P2'', pool_revisions_to_keep = 1, dir_path = None,
     volume_group = Some ''qubes_dom0'', thin_pool = Some ''pool00''\<rparr>"

definition thin_host :: "string \<Rightarrow> string option \<times> string option" where
  "thin_host path = (Some ''qubes_dom0'', Some ''pool00'')"

definition plain_host :: "string \<Rightarrow> string option \<times> string option" where
  "plain_host path = (None, None)"

text \<open>
  Drivers whose \<^verbatim>\<open>remove\<close> fails: with a storage error raised by the plain method of
  \<^verbatim>\<open>root\<close>; with I/O errors, raised by the plain method of \<^verbatim>\<open>root\<close> and by the
  coroutine of every other volume.
\<close>

definition busy_driver :: driver where
  "busy_driver = file_driver
     \<lparr>Volume_remove :=
        (\<lambda>v. Plain (\<lambda>d. (if name v = ''root''
                            then Inl (StoragePoolException ''volume in use'')
                            else Inr (), d)))\<rparr>"

definition io_error_driver :: driver where
  "io_error_driver = file_driver
     \<lparr>Volume_remove :=
        (\<lambda>v. if name v = ''root''
             then Plain (\<lambda>d. (Inl (OSError ''Input/output error''), d))
             else Coroutine (\<lambda>d. (Inl (OSError ''Device or resource busy''), d)))\<rparr>"

text \<open>
  A new VM with an empty directory, before \<^verbatim>\<open>Storage.clone\<close>, and a driver whose
  methods are coroutine functions that keep nothing in the directory of the VM; its
  \<^verbatim>\<open>import_volume\<close> fails for the volume \<^verbatim>\<open>private\<close>.
\<close>

definition vm_new :: vm where
  "vm_new = \<lparr>volumes = [], volume_config = [''root'', ''private''], dir = Some [], trace = []\<rparr>"

definition coroutine_driver :: driver where
  "coroutine_driver =
     \<lparr>init_volume = init_volume file_driver,
      Volume_create = (\<lambda>v. Coroutine (\<lambda>d. (Inr (), d))),
      Volume_import_volume =
        (\<lambda>v src. Coroutine (\<lambda>d. (if name v = ''private''
                                    then Inl (StoragePoolException ''import failed'')
                                    else Inr (), d))),
      Volume_remove = (\<lambda>v. Coroutine (\<lambda>d. (Inr (), d))),
      Volume_import_data =
        (\<lambda>v n. Coroutine (\<lambda>d. (Inr (''/dev/qubes_dom0/'' @ vid v @ ''-import''), d)))\<rparr>"

section \<open>Equality and hashing\<close>

text \<open>
  C7. Two volumes compare equal exactly when their pools compare equal and their vids
  are the same, whatever their other attributes are; equal volumes have equal hashes.
\<close>

theorem Volume_eq_iff_pool_vid:
  "Volume_eq v (PVolume w) = Bool (pool_name (pool v) = pool_name (pool w) \<and> vid v = vid w)
   \<and> (Volume_eq v (PVolume w) = Bool True
        \<longleftrightarrow> Pool_eq (pool v) (PPool (pool w)) = Bool True \<and> vid v = vid w)
   \<and> Volume_eq (Volume n1 (pool v) (vid v) k1 r1 s1 z1 t1 c1)
               (PVolume (Volume n2 (pool w) (vid w) k2 r2 s2 z2 t2 c2))
       = Volume_eq v (PVolume w)
   \<and> (Volume_eq v (PVolume w) = Bool True \<longrightarrow> Volume_hash h v = Volume_hash h w)"
  by (auto simp: Volume_hash_def Pool_str_def)

theorem Volume_eq_iff_pool_vid_witness:
  "Volume_eq vm_root (PVolume vm_root_alias) = Bool True
   \<and> Volume_hash length_hash vm_root = Volume_hash length_hash vm_root_alias
   \<and> vm_root \<noteq> vm_root_alias"
  using Volume_eq_iff_pool_vid [where v = vm_root and w = vm_root_alias and h = length_hash]
  by (simp add: vm_root_def vm_root_alias_def pool_a_def pool_a2_def)

text \<open>
  C9. A pool compares equal to a string exactly when its name is that string, the hash
  of a pool is the hash of its name, and so pools that compare equal, and a pool and a
  string that compare equal, have equal hashes.
\<close>

theorem Pool_eq_str_hash:
  "Pool_eq p (PStr s) = Bool (pool_name p = s)
   \<and> Pool_hash h p = h (pool_name p)
   \<and> (Pool_eq p (PPool q) = Bool True \<longrightarrow> Pool_hash h p = Pool_hash h q)
   \<and> (Pool_eq p (PStr s) = Bool True \<longrightarrow> Pool_hash h p = h s)"
  by (simp add: Pool_hash_def)

theorem Pool_eq_str_hash_witness:
  "Pool_eq pool_a (PStr ''a'') = Bool True
   \<and> Pool_eq pool_a (PPool pool_a2) = Bool True
   \<and> Pool_hash length_hash pool_a = Pool_hash length_hash pool_a2
   \<and> Pool_hash length_hash pool_a = length_hash ''a''"
  using Pool_eq_str_hash [where p = pool_a and s = "''a''" and h = length_hash and q = pool_a2]
  by (simp add: pool_a_def pool_a2_def)

section \<open>Construction of a volume\<close>

text \<open>
  C3, as stated, fails: with \<^verbatim>\<open>snap_on_start=False\<close> and a source volume of another
  pool the constructor fails its assertion, and the exception is \<^verbatim>\<open>AssertionError\<close>,
  not the storage error \<^verbatim>\<open>StoragePoolException\<close>.
\<close>

theorem Volume_init_foreign_source_counterexample:
  "Volume_init ''root'' pool_a ''vm/root'' 0 False False 0 False (Some other_root)
     = Inl AssertionError
   \<and> \<not> is_StoragePoolException
         (Volume_init ''root'' pool_a ''vm/root'' 0 False False 0 False (Some other_root))"
  by (simp add: Volume_init_def is_StoragePoolException_def pool_a_def pool_b_def
      other_root_def)

text \<open>
  C3, amended. \<^verbatim>\<open>snap_on_start=True\<close> without a source raises
  \<^verbatim>\<open>StoragePoolException\<close>; \<^verbatim>\<open>snap_on_start=False\<close> with a source of the same pool
  raises \<^verbatim>\<open>StoragePoolException\<close>; a source of another pool raises
  \<^verbatim>\<open>AssertionError\<close>, whatever \<^verbatim>\<open>snap_on_start\<close> is. A volume that is constructed has
  the attributes given, is in exactly one of the four modes, has a source exactly when
  \<^verbatim>\<open>snap_on_start\<close> is set, and its source is in its own pool.
\<close>

theorem Volume_init_checks:
  "(snap \<and> src = None \<longrightarrow> is_StoragePoolException (Volume_init n p v k r sv z snap src))
   \<and> (\<not> snap \<and> src = Some s \<and> Pool_eq (pool s) (PPool p) = Bool True
        \<longrightarrow> is_StoragePoolException (Volume_init n p v k r sv z snap src))
   \<and> (src = Some s \<and> Pool_eq (pool s) (PPool p) \<noteq> Bool True
        \<longrightarrow> Volume_init n p v k r sv z snap src = Inl AssertionError)
   \<and> (Volume_init n p v k r sv z snap src = Inr vol
        \<longrightarrow> vol = Volume n p v k r sv z snap src
          \<and> count_list (modes vol) True = 1
          \<and> (snap_on_start vol \<longleftrightarrow> source vol \<noteq> None)
          \<and> (source vol = Some s \<longrightarrow> Pool_eq (pool s) (PPool (pool vol)) = Bool True))"
  by (auto simp: Volume_init_def is_StoragePoolException_def modes_def volatile_def
      snapshot_def origin_def origin_snapshot_def split: if_splits option.splits)

theorem Volume_init_checks_witness:
  "is_StoragePoolException (Volume_init ''root'' pool_a ''vm/root'' 0 False False 10 True None)
   \<and> is_StoragePoolException
       (Volume_init ''root'' pool_a ''vm/root'' 0 False False 10 False (Some tpl_root))
   \<and> Volume_init ''root'' pool_a ''vm/root'' 0 False False 10 True (Some other_root)
       = Inl AssertionError
   \<and> Volume_init ''root'' pool_a ''vm/root'' 0 False False 10 True (Some tpl_root) = Inr vm_root
   \<and> count_list (modes vm_root) True = 1
   \<and> snap_on_start vm_root
   \<and> source vm_root = Some tpl_root
   \<and> Pool_eq (pool tpl_root) (PPool (pool vm_root)) = Bool True"
  using
    Volume_init_checks [where snap = True and src = None and n = "''root''" and p = pool_a
      and v = "''vm/root''" and k = 0 and r = False and sv = False and z = 10]
    Volume_init_checks [where snap = False and src = "Some tpl_root" and s = tpl_root
      and n = "''root''" and p = pool_a and v = "''vm/root''" and k = 0 and r = False
      and sv = False and z = 10]
    Volume_init_checks [where snap = True and src = "Some other_root" and s = other_root
      and n = "''root''" and p = pool_a and v = "''vm/root''" and k = 0 and r = False
      and sv = False and z = 10]
    Volume_init_checks [where snap = True and src = "Some tpl_root" and s = tpl_root
      and n = "''root''" and p = pool_a and v = "''vm/root''" and k = 0 and r = False
      and sv = False and z = 10 and vol = vm_root]
  by (simp add: Volume_init_def vm_root_def tpl_root_def other_root_def pool_a_def pool_b_def)

section \<open>Serialization of a volume\<close>

lemma map_of_sanitize_items:
  "distinct (map fst items) \<Longrightarrow>
   map_of (sanitize_items items result) k =
     (case sanitized (map_of items k) of None \<Rightarrow> map_of result k | Some x \<Rightarrow> Some x)"
proof (induction items arbitrary: result k)
  case Nil
  then show ?case by simp
next
  case (Cons a items)
  obtain key v where a: "a = (key, v)" by (cases a)
  from Cons.prems a have fresh: "map_of items key = None"
    by (simp add: map_of_eq_None_iff)
  from Cons.prems have d: "distinct (map fst items)" by simp
  show ?case
  proof (cases "k = key")
    case True
    then show ?thesis
      using fresh a by (cases v) (simp_all add: Cons.IH [OF d] update_conv')
  next
    case False
    then show ?thesis
      using a by (cases v) (auto simp: Cons.IH [OF d] update_conv' split: option.splits)
  qed
qed

lemma map_of_sanitize_config:
  "distinct (map fst config) \<Longrightarrow> map_of (sanitize_config config) k = sanitized (map_of config k)"
  by (simp add: sanitize_config_def map_of_sanitize_items split: option.splits)

lemma distinct_Volume_config: "distinct (map fst (Volume_config v))"
  by (simp add: Volume_config_def Let_def distinct_update split: option.splits)

lemma map_of_Volume_config:
  "map_of (Volume_config v) k =
     (if k = ''name'' then Some (VStr (name v))
      else if k = ''pool'' then Some (VStr (pool_name (pool v)))
      else if k = ''vid'' then Some (VStr (vid v))
      else if k = ''revisions_to_keep'' then Some (VInt (revisions_to_keep v))
      else if k = ''rw'' then Some (VBool (rw v))
      else if k = ''save_on_stop'' then Some (VBool (save_on_stop v))
      else if k = ''snap_on_start'' then Some (VBool (snap_on_start v))
      else if k = ''size'' then (if size_vol v \<noteq> 0 then Some (VInt (size_vol v)) else None)
      else if k = ''source'' then map_option (\<lambda>src. VStr (vid src)) (source v)
      else None)"
  by (simp add: Volume_config_def Let_def update_conv' Pool_str_def Volume_str_def
      split: option.splits)

text \<open>
  C6. In the serialized config of a volume each of the keys \<^verbatim>\<open>rw\<close>, \<^verbatim>\<open>save_on_stop\<close>
  and \<^verbatim>\<open>snap_on_start\<close> maps to the string \<^verbatim>\<open>True\<close> when the attribute is true and is
  absent when it is false; so a volume with \<^verbatim>\<open>save_on_stop=False\<close> has no key
  \<^verbatim>\<open>save_on_stop\<close>, and one with \<^verbatim>\<open>snap_on_start=True\<close> has \<^verbatim>\<open>snap_on_start\<close> as
  \<^verbatim>\<open>True\<close>. The other keys are the name, the pool's name, the vid and the number of
  revisions, the size when it is not zero and the vid of the source when there is
  one, and there is no further key. For any dictionary, a boolean entry is written as
  \<^verbatim>\<open>True\<close> when it is true and left out when it is false, and every other entry is
  written as its string.
\<close>

theorem sanitize_config_booleans:
  "(\<not> save_on_stop v \<longrightarrow>
      map_of (Volume_xml_config v) ''save_on_stop'' = None
      \<and> ''save_on_stop'' \<notin> fst ` set (Volume_xml_config v))
   \<and> (snap_on_start v \<longrightarrow> map_of (Volume_xml_config v) ''snap_on_start'' = Some ''True'')
   \<and> (distinct (map fst config) \<and> map_of config k = Some (VBool b)
        \<longrightarrow> map_of (sanitize_config config) k = (if b then Some ''True'' else None))
   \<and> map_of (Volume_xml_config v) ''rw'' = (if rw v then Some ''True'' else None)
   \<and> map_of (Volume_xml_config v) ''save_on_stop''
       = (if save_on_stop v then Some ''True'' else None)
   \<and> map_of (Volume_xml_config v) ''snap_on_start''
       = (if snap_on_start v then Some ''True'' else None)
   \<and> map_of (Volume_xml_config v) k =
       (if k = ''name'' then Some (name v)
        else if k = ''pool'' then Some (pool_name (pool v))
        else if k = ''vid'' then Some (vid v)
        else if k = ''revisions_to_keep'' then Some (str_int (revisions_to_keep v))
        else if k = ''rw'' then (if rw v then Some ''True'' else None)
        else if k = ''save_on_stop'' then (if save_on_stop v then Some ''True'' else None)
        else if k = ''snap_on_start'' then (if snap_on_start v then Some ''True'' else None)
        else if k = ''size'' then (if size_vol v \<noteq> 0 then Some (str_int (size_vol v)) else None)
        else if k = ''source'' then map_option vid (source v)
        else None)
   \<and> (distinct (map fst config) \<longrightarrow>
        map_of (sanitize_config config) k =
          (case map_of config k of
             None \<Rightarrow> None
           | Some (VStr x) \<Rightarrow> Some x
           | Some (VInt i) \<Rightarrow> Some (str_int i)
           | Some (VBool b) \<Rightarrow> (if b then Some ''True'' else None)))"
proof -
  have cfg: "map_of (Volume_xml_config v) key = sanitized (map_of (Volume_config v) key)" for key
    by (simp add: Volume_xml_config_def map_of_sanitize_config distinct_Volume_config)
  have full: "map_of (Volume_xml_config v) key =
       (if key = ''name'' then Some (name v)
        else if key = ''pool'' then Some (pool_name (pool v))
        else if key = ''vid'' then Some (vid v)
        else if key = ''revisions_to_keep'' then Some (str_int (revisions_to_keep v))
        else if key = ''rw'' then (if rw v then Some ''True'' else None)
        else if key = ''save_on_stop'' then (if save_on_stop v then Some ''True'' else None)
        else if key = ''snap_on_start'' then (if snap_on_start v then Some ''True'' else None)
        else if key = ''size'' then (if size_vol v \<noteq> 0 then Some (str_int (size_vol v)) else None)
        else if key = ''source'' then map_option vid (source v)
        else None)" for key
    unfolding cfg map_of_Volume_config by (cases "source v") simp_all
  have rw: "map_of (Volume_xml_config v) ''rw'' = (if rw v then Some ''True'' else None)"
    unfolding full by simp
  have sv: "map_of (Volume_xml_config v) ''save_on_stop''
      = (if save_on_stop v then Some ''True'' else None)"
    unfolding full by simp
  have sn: "map_of (Volume_xml_config v) ''snap_on_start''
      = (if snap_on_start v then Some ''True'' else None)"
    unfolding full by simp
  have absent: "\<not> save_on_stop v \<longrightarrow> ''save_on_stop'' \<notin> fst ` set (Volume_xml_config v)"
  proof
    assume "\<not> save_on_stop v"
    then have "map_of (Volume_xml_config v) ''save_on_stop'' = None"
      using sv by simp
    then show "''save_on_stop'' \<notin> fst ` set (Volume_xml_config v)"
      using map_of_eq_None_iff [of "Volume_xml_config v" "''save_on_stop''"] by blast
  qed
  have gen: "distinct (map fst config) \<longrightarrow>
        map_of (sanitize_config config) k =
          (case map_of config k of
             None \<Rightarrow> None
           | Some (VStr x) \<Rightarrow> Some x
           | Some (VInt i) \<Rightarrow> Some (str_int i)
           | Some (VBool b) \<Rightarrow> (if b then Some ''True'' else None))"
    by (simp add: map_of_sanitize_config split: option.splits pyval.splits)
  have genb: "distinct (map fst config) \<and> map_of config k = Some (VBool b)
      \<longrightarrow> map_of (sanitize_config config) k = (if b then Some ''True'' else None)"
    by (simp add: map_of_sanitize_config)
  show ?thesis
    using rw sv sn absent gen genb full [of k] by simp
qed

theorem sanitize_config_booleans_witness:
  "\<not> save_on_stop vm_root \<and> snap_on_start vm_root \<and> \<not> rw vm_root
   \<and> map_of (Volume_xml_config vm_root) ''save_on_stop'' = None
   \<and> map_of (Volume_xml_config vm_root) ''rw'' = None
   \<and> map_of (Volume_xml_config vm_root) ''snap_on_start'' = Some ''True''
   \<and> map_of (Volume_xml_config vm_root) ''source'' = Some ''tpl/root''
   \<and> map_of (Volume_xml_config vm_private) ''rw'' = Some ''True''
   \<and> map_of (Volume_xml_config vm_private) ''save_on_stop'' = Some ''True''
   \<and> map_of (Volume_xml_config vm_private) ''snap_on_start'' = None
   \<and> map_of (sanitize_config [(''rw'', VBool False), (''name'', VStr ''root'')]) ''rw'' = None
   \<and> map_of (sanitize_config [(''rw'', VBool True), (''name'', VStr ''root'')]) ''rw''
       = Some ''True''"
  using
    sanitize_config_booleans [where v = vm_root and k = "''rw''" and b = False
      and config = "[(''rw'', VBool False), (''name'', VStr ''root'')]"]
    sanitize_config_booleans [where v = vm_private and k = "''rw''" and b = True
      and config = "[(''rw'', VBool True), (''name'', VStr ''root'')]"]
    sanitize_config_booleans [where v = vm_root and k = "''source''"]
  by (simp add: vm_root_def vm_private_def tpl_root_def)

section \<open>Frontend allocation\<close>

lemma finite_AVAILABLE_FRONTENDS: "finite AVAILABLE_FRONTENDS"
  by (simp add: AVAILABLE_FRONTENDS_def)

lemma card_AVAILABLE_FRONTENDS: "card AVAILABLE_FRONTENDS = 26"
  by (simp add: AVAILABLE_FRONTENDS_def ascii_lowercase_def)

text \<open>
  C5. \<^verbatim>\<open>unused_frontend\<close> returns a slot of the 26 slots \<^verbatim>\<open>xvda\<close> .. \<^verbatim>\<open>xvdz\<close> that is
  not used and is the smallest such slot in the lexicographic order; as a function of
  the used set its result is the same on every call. It raises \<^verbatim>\<open>IndexError\<close>, and
  nothing else, exactly when every slot is used.
\<close>

theorem unused_frontend_lowest:
  "(Storage_unused_frontend used = Inr f \<longrightarrow>
      f \<in> AVAILABLE_FRONTENDS \<and> Some f \<notin> used
      \<and> (\<forall>g\<in>AVAILABLE_FRONTENDS. Some g \<notin> used \<longrightarrow> f \<le> g))
   \<and> (Storage_unused_frontend used = Inl e \<longrightarrow> e = IndexError)
   \<and> (Storage_unused_frontend used = Inl IndexError
        \<longleftrightarrow> (\<forall>g\<in>AVAILABLE_FRONTENDS. Some g \<in> used))
   \<and> card AVAILABLE_FRONTENDS = 26"
proof -
  define U where "U = Set.filter (\<lambda>f. Some f \<notin> used) AVAILABLE_FRONTENDS"
  have fin: "finite U"
    by (simp add: U_def finite_AVAILABLE_FRONTENDS)
  have mem: "g \<in> U \<longleftrightarrow> g \<in> AVAILABLE_FRONTENDS \<and> Some g \<notin> used" for g
    by (auto simp: U_def)
  have res: "Storage_unused_frontend used =
      (case sorted_list_of_set U of [] \<Rightarrow> Inl IndexError | f # x \<Rightarrow> Inr f)"
    by (simp add: Storage_unused_frontend_def U_def)
  show ?thesis
  proof (cases "sorted_list_of_set U")
    case Nil
    then have "U = {}" using fin by simp
    then show ?thesis using Nil res mem card_AVAILABLE_FRONTENDS by auto
  next
    case (Cons x xs)
    have elems: "set (x # xs) = U"
      using Cons fin by (metis set_sorted_list_of_set)
    have srt: "sorted (x # xs)"
      using Cons by (metis sorted_sorted_list_of_set)
    have "x \<in> U" using elems by auto
    moreover have "\<forall>g\<in>U. x \<le> g" using elems srt by auto
    ultimately show ?thesis using Cons res mem card_AVAILABLE_FRONTENDS by auto
  qed
qed

lemma unused_frontend_used_ab: "Storage_unused_frontend used_ab = Inr ''xvdc''"
  by code_simp

theorem unused_frontend_lowest_witness:
  "Storage_unused_frontend used_ab = Inr ''xvdc''
   \<and> ''xvdc'' \<in> AVAILABLE_FRONTENDS \<and> Some ''xvdc'' \<notin> used_ab
   \<and> ''xvdz'' \<in> AVAILABLE_FRONTENDS \<and> Some ''xvdz'' \<notin> used_ab \<and> ''xvdc'' \<le> ''xvdz''
   \<and> Storage_unused_frontend (Some ` AVAILABLE_FRONTENDS) = Inl IndexError"
  using unused_frontend_lowest [where used = used_ab and f = "''xvdc''"]
    unused_frontend_lowest [where used = "Some ` AVAILABLE_FRONTENDS"]
    unused_frontend_used_ab
  by (simp add: used_ab_def AVAILABLE_FRONTENDS_def ascii_lowercase_def)

section \<open>Lookup in a collection of volumes\<close>

lemma scan_volumes_find: "scan_volumes vols item = find (\<lambda>vol. vid vol = item) vols"
  by (induction vols) auto

lemma getitem_vid_preferred:
  "(\<forall>m. get_volume c s \<noteq> Inl (NotImplementedError m)) \<Longrightarrow> getitem_vid c s = get_volume c s"
  by (auto simp: getitem_vid_def split: sum.splits exn.splits)

lemma getitem_vid_fallback:
  "get_volume c s = Inl (NotImplementedError m) \<Longrightarrow> list_volumes c = Inr vols \<Longrightarrow>
   getitem_vid c s =
     (case find (\<lambda>vol. vid vol = s) vols of
        Some vol \<Rightarrow> Inr (Some vol)
      | None \<Rightarrow> Inl (KeyError (PStr s)))"
  by (simp add: getitem_vid_def scan_volumes_find)

lemma getitem_vid_unlisted:
  "get_volume c s = Inl (NotImplementedError m) \<Longrightarrow> list_volumes c = Inl e \<Longrightarrow>
   getitem_vid c s = Inl e"
  by (simp add: getitem_vid_def)

lemma contains_True_iff:
  "VolumesCollection_contains c k = Inr True
     \<longleftrightarrow> (\<exists>w. VolumesCollection_getitem c k = Inr (Some w))"
  by (auto simp: VolumesCollection_contains_def split: sum.splits exn.splits)

lemma contains_False_iff:
  "VolumesCollection_contains c k = Inr False
     \<longleftrightarrow> VolumesCollection_getitem c k = Inr None
         \<or> (\<exists>x. VolumesCollection_getitem c k = Inl (KeyError x))"
  by (auto simp: VolumesCollection_contains_def split: sum.splits exn.splits)

text \<open>
  C4. A volume of another pool is not found (\<^verbatim>\<open>KeyError\<close>), and a volume of the
  wrapped pool is looked up by its vid. A vid is looked up with \<^verbatim>\<open>get_volume\<close>, whose
  answer is the result unless it is \<^verbatim>\<open>NotImplementedError\<close>; then the result is the
  first volume of \<^verbatim>\<open>list_volumes()\<close> with that vid, and \<^verbatim>\<open>KeyError\<close> when there is
  none (an exception of \<^verbatim>\<open>list_volumes\<close> itself is passed on). \<^verbatim>\<open>__contains__\<close> is
  true exactly when the lookup returns a volume, and false exactly when the lookup
  returns \<^verbatim>\<open>None\<close> or raises \<^verbatim>\<open>KeyError\<close>.
\<close>

theorem VolumesCollection_lookup:
  "(Pool_eq (pool v) (PPool (wrapped_pool c)) \<noteq> Bool True \<longrightarrow>
      VolumesCollection_getitem c (Item_volume v) = Inl (KeyError (PVolume v)))
   \<and> (Pool_eq (pool v) (PPool (wrapped_pool c)) = Bool True \<longrightarrow>
      VolumesCollection_getitem c (Item_volume v) = VolumesCollection_getitem c (Item_vid (vid v)))
   \<and> ((\<forall>m. get_volume c s \<noteq> Inl (NotImplementedError m)) \<longrightarrow>
      VolumesCollection_getitem c (Item_vid s) = get_volume c s)
   \<and> (get_volume c s = Inl (NotImplementedError m) \<and> list_volumes c = Inr vols \<longrightarrow>
      VolumesCollection_getitem c (Item_vid s) =
        (case find (\<lambda>vol. vid vol = s) vols of
           Some vol \<Rightarrow> Inr (Some vol)
         | None \<Rightarrow> Inl (KeyError (PStr s))))
   \<and> (get_volume c s = Inl (NotImplementedError m) \<and> list_volumes c = Inr vols
        \<and> vol \<in> set vols \<and> vid vol = s \<longrightarrow>
      (\<exists>w. VolumesCollection_getitem c (Item_vid s) = Inr (Some w) \<and> w \<in> set vols \<and> vid w = s))
   \<and> (get_volume c s = Inl (NotImplementedError m) \<and> list_volumes c = Inr vols
        \<and> (\<forall>vol\<in>set vols. vid vol \<noteq> s) \<longrightarrow>
      VolumesCollection_getitem c (Item_vid s) = Inl (KeyError (PStr s)))
   \<and> (get_volume c s = Inl (NotImplementedError m) \<and> list_volumes c = Inl e \<longrightarrow>
      VolumesCollection_getitem c (Item_vid s) = Inl e)
   \<and> (VolumesCollection_contains c k = Inr True
        \<longleftrightarrow> (\<exists>w. VolumesCollection_getitem c k = Inr (Some w)))
   \<and> (VolumesCollection_contains c k = Inr False
        \<longleftrightarrow> VolumesCollection_getitem c k = Inr None
            \<or> (\<exists>x. VolumesCollection_getitem c k = Inl (KeyError x)))"
proof -
  have found: "\<exists>w. find (\<lambda>vol. vid vol = s) vols = Some w \<and> w \<in> set vols \<and> vid w = s"
    if "vol \<in> set vols" "vid vol = s"
  proof (cases "find (\<lambda>vol. vid vol = s) vols")
    case None
    then show ?thesis using that by (auto simp: find_None_iff)
  next
    case (Some w)
    then show ?thesis by (auto simp: find_Some_iff)
  qed
  have absent: "find (\<lambda>vol. vid vol = s) vols = None" if "\<forall>vol\<in>set vols. vid vol \<noteq> s"
    using that by (simp add: find_None_iff)
  show ?thesis
    using found absent
    by (auto simp: getitem_vid_preferred getitem_vid_fallback getitem_vid_unlisted
        contains_True_iff contains_False_iff)
qed

theorem VolumesCollection_lookup_witness:
  "VolumesCollection_getitem listing_collection (Item_volume other_root)
     = Inl (KeyError (PVolume other_root))
   \<and> VolumesCollection_getitem listing_collection (Item_volume vm_root_alias) = Inr (Some vm_root)
   \<and> VolumesCollection_getitem getting_collection (Item_vid ''vm/root'') = Inr (Some vm_root)
   \<and> VolumesCollection_getitem listing_collection (Item_vid ''vm/private'') = Inr (Some vm_private)
   \<and> VolumesCollection_getitem listing_collection (Item_vid ''vm/none'')
       = Inl (KeyError (PStr ''vm/none''))
   \<and> VolumesCollection_getitem getting_collection (Item_vid ''vm/none'')
       = Inl (KeyError (PStr ''vm/none''))
   \<and> VolumesCollection_contains listing_collection (Item_vid ''vm/private'') = Inr True
   \<and> VolumesCollection_contains listing_collection (Item_vid ''vm/none'') = Inr False"
  using
    VolumesCollection_lookup [where c = listing_collection and v = other_root
      and s = "''vm/private''" and m = "''get_volume''" and vol = vm_private
      and vols = "[tpl_root, vm_root, vm_private]" and k = "Item_vid ''vm/private''"]
    VolumesCollection_lookup [where c = listing_collection and v = vm_root_alias
      and s = "''vm/none''" and m = "''get_volume''"
      and vols = "[tpl_root, vm_root, vm_private]" and k = "Item_vid ''vm/none''"]
    VolumesCollection_lookup [where c = getting_collection and s = "''vm/root''"]
    VolumesCollection_lookup [where c = getting_collection and s = "''vm/none''"]
  by (simp add: listing_collection_def getting_collection_def getitem_vid_def
      tpl_root_def vm_root_def vm_private_def vm_root_alias_def other_root_def
      pool_a_def pool_a2_def pool_b_def)

section \<open>Import of data\<close>

lemma call_await_run: "call_await ev m s = run ev (body_of m) s"
  by (cases m) (auto simp: call_await_def split: prod.splits sum.splits)

text \<open>
  C10. \<^verbatim>\<open>Storage.import_data\<close> with size \<^verbatim>\<open>None\<close> runs the volume's \<^verbatim>\<open>import_data\<close>
  with the volume's own size, and with a given size runs it with that size: the result
  and the directory are those of the method's body, and the trace records the call
  with that size. A name stands for the volume registered under it, and a name that is
  not registered raises \<^verbatim>\<open>KeyError\<close>.
\<close>

theorem Storage_import_data_size:
  "Storage_import_data D (Item_volume v) None s
     = run (Ran_import_data v (size_vol v)) (body_of (Volume_import_data D v (size_vol v))) s
   \<and> Storage_import_data D (Item_volume v) (Some n) s
     = run (Ran_import_data v n) (body_of (Volume_import_data D v n)) s
   \<and> (map_of (volumes s) nm = Some v \<longrightarrow>
        Storage_import_data D (Item_vid nm) sz s = Storage_import_data D (Item_volume v) sz s)
   \<and> (map_of (volumes s) nm = None \<longrightarrow>
        Storage_import_data D (Item_vid nm) sz s = (Inl (KeyError (PStr nm)), s))
   \<and> trace (snd (Storage_import_data D (Item_volume v) None s))
       = trace s @ [Ran_import_data v (size_vol v)]
   \<and> trace (snd (Storage_import_data D (Item_volume v) (Some n) s))
       = trace s @ [Ran_import_data v n]"
  by (auto simp: Storage_import_data_def call_await_run run_def split: prod.splits)

theorem Storage_import_data_size_witness:
  "map_of (volumes vm_two) ''private'' = Some vm_private
   \<and> map_of (volumes vm_two) ''kernel'' = None
   \<and> size_vol vm_private = 20
   \<and> trace (snd (Storage_import_data file_driver (Item_vid ''private'') None vm_two))
       = [Ran_import_data vm_private 20]
   \<and> trace (snd (Storage_import_data file_driver (Item_vid ''private'') (Some 5) vm_two))
       = [Ran_import_data vm_private 5]
   \<and> fst (Storage_import_data file_driver (Item_vid ''private'') None vm_two)
       = Inr ''/var/lib/qubes/vm/private.import''
   \<and> Storage_import_data file_driver (Item_vid ''kernel'') None vm_two
       = (Inl (KeyError (PStr ''kernel'')), vm_two)"
  using
    Storage_import_data_size [where D = file_driver and v = vm_private and s = vm_two
      and nm = "''private''" and sz = None and n = 5]
    Storage_import_data_size [where D = file_driver and v = vm_private and s = vm_two
      and nm = "''private''" and sz = "Some 5" and n = 5]
    Storage_import_data_size [where D = file_driver and s = vm_two and nm = "''kernel''"
      and sz = None]
  by (simp add: vm_two_def file_driver_def vm_private_def run_def)

section \<open>Search for the pool that contains a directory\<close>

lemma split_ne: "split sep s \<noteq> []"
  by (induction s) auto

lemma split_no_sep: "c \<in> set (split sep s) \<Longrightarrow> sep \<notin> set c"
proof (induction s arbitrary: c)
  case Nil
  then show ?case by simp
next
  case (Cons a s)
  obtain r rs where r: "split sep s = r # rs"
    using split_ne [of sep s] by (cases "split sep s") auto
  show ?case
    using Cons r by (auto split: if_splits)
qed

lemma split_plain: "sep \<notin> set x \<Longrightarrow> split sep x = [x]"
  by (induction x) auto

lemma split_append_sep: "sep \<notin> set x \<Longrightarrow> split sep (x @ sep # r) = x # split sep r"
  by (induction x) auto

lemma split_join:
  "cs \<noteq> [] \<Longrightarrow> \<forall>c\<in>set cs. sep \<notin> set c \<Longrightarrow> split sep (join sep cs) = cs"
  by (induction sep cs rule: join.induct) (auto simp: split_plain split_append_sep)

lemma components_valid:
  "c \<in> set (components p) \<Longrightarrow> c \<noteq> [] \<and> c \<noteq> ''.'' \<and> CHR ''/'' \<notin> set c"
  by (auto simp: components_def dest: split_no_sep)

lemma components_join:
  assumes "\<forall>c\<in>set cs. c \<noteq> [] \<and> c \<noteq> ''.'' \<and> CHR ''/'' \<notin> set c"
  shows "components (join CHR ''/'' cs) = cs"
proof (cases cs)
  case Nil
  then show ?thesis by (simp add: components_def)
next
  case (Cons a list)
  then have "split CHR ''/'' (join CHR ''/'' cs) = cs"
    using assms by (intro split_join) auto
  then show ?thesis
    using assms by (simp add: components_def filter_id_conv)
qed

lemma components_slash: "components (CHR ''/'' # p) = components p"
  by (simp add: components_def)

lemma common_prefix_prefix:
  "common_prefix s1 s2 = Inr c \<Longrightarrow> prefix c s1 \<and> prefix c s2"
  by (induction s1 s2 arbitrary: c rule: common_prefix.induct)
     (auto split: if_splits sum.splits)

lemma common_prefix_of_prefix: "prefix s1 s2 \<Longrightarrow> common_prefix s1 s2 = Inr s1"
  by (induction s1 s2 rule: common_prefix.induct) auto

lemma common_prefix_le: "s1 \<le> s2 \<Longrightarrow> \<exists>c. common_prefix s1 s2 = Inr c"
  by (induction s1 s2 rule: common_prefix.induct) (auto split: sum.splits)

lemma prefix_le: "prefix xs ys \<Longrightarrow> xs \<le> (ys :: string list)"
proof (induction xs arbitrary: ys)
  case Nil
  then show ?case by simp
next
  case (Cons a xs)
  then obtain zs where ys: "ys = a # zs" and p: "prefix xs zs"
    by (cases ys) auto
  from Cons.IH [OF p] show ?case by (simp add: ys)
qed

lemma commonpath_total:
  "isabs p \<Longrightarrow> isabs q \<Longrightarrow> \<exists>c. commonpath p q = Inr c"
proof -
  assume a: "isabs p" "isabs q"
  have "min (components p) (components q) \<le> max (components p) (components q)"
    by (auto simp: min_def max_def)
  from common_prefix_le [OF this] obtain c where
    "common_prefix (min (components p) (components q)) (max (components p) (components q)) = Inr c"
    by blast
  then show ?thesis using a by (simp add: commonpath_def Let_def)
qed

lemma commonpath_ancestor:
  assumes canon: "p = CHR ''/'' # join CHR ''/'' (components p)" and q: "isabs q"
  shows "commonpath p q = Inr p \<longleftrightarrow> path_ancestor p q"
proof
  have absp: "isabs p" by (subst canon) (simp add: isabs_def)
  {
    assume eq: "commonpath p q = Inr p"
    let ?s1 = "min (components p) (components q)"
    let ?s2 = "max (components p) (components q)"
    from eq absp q obtain common where
      cp: "common_prefix ?s1 ?s2 = Inr common" and
      pe: "p = CHR ''/'' # join CHR ''/'' common"
      by (auto simp: commonpath_def Let_def split: sum.splits)
    from common_prefix_prefix [OF cp] have pre: "prefix common ?s1" "prefix common ?s2"
      by auto
    have sub: "set common \<subseteq> set (components p) \<union> set (components q)"
      using pre(1) by (auto simp: min_def dest: set_mono_prefix split: if_splits)
    have valid: "\<forall>c\<in>set common. c \<noteq> [] \<and> c \<noteq> ''.'' \<and> CHR ''/'' \<notin> set c"
      using sub components_valid by blast
    have "components p = components (CHR ''/'' # join CHR ''/'' common)"
      using pe by simp
    also have "\<dots> = common"
      by (simp add: components_slash components_join [OF valid])
    finally have cm: "components p = common" .
    have "prefix common (components q)"
      using pre by (auto simp: min_def max_def split: if_splits)
    then show "path_ancestor p q"
      by (simp add: path_ancestor_def cm)
  }
  {
    assume "path_ancestor p q"
    then have pre: "prefix (components p) (components q)"
      by (simp add: path_ancestor_def)
    from prefix_le [OF this] have le: "components p \<le> components q" .
    have "common_prefix (components p) (components q) = Inr (components p)"
      by (rule common_prefix_of_prefix [OF pre])
    then have "commonpath p q = Inr (CHR ''/'' # join CHR ''/'' (components p))"
      using le absp q by (simp add: commonpath_def Let_def min_def max_def)
    then show "commonpath p q = Inr p"
      using canon by simp
  }
qed

lemma canonical_isabs: "canonical realpath \<Longrightarrow> isabs (realpath path)"
proof -
  assume "canonical realpath"
  then have "realpath path = CHR ''/'' # join CHR ''/'' (components (realpath path))"
    by (simp add: canonical_def)
  then obtain r where "realpath path = CHR ''/'' # r" by blast
  then show ?thesis by (simp add: isabs_def)
qed

lemma filesystem_pools_find:
  assumes "canonical realpath"
  shows "filesystem_pools realpath (realpath d) pools
           = Inr (find (filesystem_match realpath (realpath d)) pools)"
proof (induction pools)
  case Nil
  then show ?case by simp
next
  case (Cons p pools)
  show ?case
  proof (cases "dir_path p")
    case None
    then show ?thesis using Cons by (simp add: filesystem_match_def)
  next
    case (Some dp)
    have canon: "realpath dp = CHR ''/'' # join CHR ''/'' (components (realpath dp))"
      using assms by (simp add: canonical_def)
    have absd: "isabs (realpath d)" and absp: "isabs (realpath dp)"
      using assms by (simp_all add: canonical_isabs)
    from commonpath_total [OF absp absd] obtain c where
      c: "commonpath (realpath dp) (realpath d) = Inr c" by blast
    have "c = realpath dp \<longleftrightarrow> path_ancestor (realpath dp) (realpath d)"
      using commonpath_ancestor [OF canon absd] c by auto
    then show ?thesis
      using Some Cons c by (simp add: filesystem_match_def Let_def)
  qed
qed

lemma lvm_pools_find:
  "lvm_pools thin_pool_of rd pools = find (thin_match thin_pool_of rd) pools"
  by (induction pools) (auto simp: thin_match_def split: option.splits)

lemma search_refines_spec:
  "canonical realpath \<Longrightarrow>
   search_pool_containing_dir realpath thin_pool_of pools d
     = Inr (search_spec realpath thin_pool_of pools d)"
  by (simp add: search_pool_containing_dir_def search_spec_def Let_def
      filesystem_pools_find lvm_pools_find split: option.splits)

lemma components_idem: "components (CHR ''/'' # join CHR ''/'' (components p)) = components p"
  using components_valid [of _ p] by (simp add: components_slash components_join)

lemma canonical_plain: "canonical plain_realpath"
  by (simp add: canonical_def plain_realpath_def components_idem)

lemma find_cases:
  "(find P xs = None \<longleftrightarrow> (\<forall>x\<in>set xs. \<not> P x))
   \<and> (find P xs = Some y \<longrightarrow> y \<in> set xs \<and> P y)"
  by (auto simp: find_None_iff find_Some_iff)

lemma search_example_filesystem:
  "search_pool_containing_dir plain_realpath thin_host [pool_thin, pool_fs]
     ''/data/pool1/sub/dir'' = Inr (Some pool_fs)"
  by code_simp

lemma search_example_thin:
  "search_pool_containing_dir plain_realpath thin_host [pool_thin, pool_fs]
     ''/data/pool10'' = Inr (Some pool_thin)"
  by code_simp

lemma search_example_none:
  "search_pool_containing_dir plain_realpath plain_host [pool_thin, pool_fs]
     ''/data/pool10'' = Inr None"
  by code_simp

text \<open>
  C8. For a \<^verbatim>\<open>realpath\<close> that returns canonical absolute paths, the search raises
  nothing and returns the first pool of the list that is filesystem-backed with its
  real directory a path-prefix ancestor of the candidate's real path; only when there
  is no such pool it returns the first pool whose pair of volume group and thin pool
  is the one resolved for the candidate; and it returns \<^verbatim>\<open>None\<close> exactly when no pool
  matches in either way.
\<close>

theorem search_pool_containing_dir_result:
  assumes "canonical realpath"
  shows
    "search_pool_containing_dir realpath thin_pool_of pools d
       = Inr (search_spec realpath thin_pool_of pools d)
     \<and> (search_pool_containing_dir realpath thin_pool_of pools d = Inr (Some p) \<longrightarrow>
          p \<in> set pools
          \<and> (filesystem_match realpath (realpath d) p
              \<or> (\<forall>q\<in>set pools. \<not> filesystem_match realpath (realpath d) q)
                \<and> thin_match thin_pool_of (realpath d) p))
     \<and> ((\<exists>q\<in>set pools. filesystem_match realpath (realpath d) q) \<longrightarrow>
          (\<exists>q. search_pool_containing_dir realpath thin_pool_of pools d = Inr (Some q)
               \<and> filesystem_match realpath (realpath d) q))
     \<and> (search_pool_containing_dir realpath thin_pool_of pools d = Inr None
          \<longleftrightarrow> (\<forall>q\<in>set pools. \<not> filesystem_match realpath (realpath d) q
                               \<and> \<not> thin_match thin_pool_of (realpath d) q))"
proof -
  let ?F = "filesystem_match realpath (realpath d)"
  let ?T = "thin_match thin_pool_of (realpath d)"
  have r: "search_pool_containing_dir realpath thin_pool_of pools d
      = Inr (case find ?F pools of Some p \<Rightarrow> Some p | None \<Rightarrow> find ?T pools)"
    using search_refines_spec [OF assms] by (simp add: search_spec_def)
  show ?thesis
  proof (cases "find ?F pools")
    case None
    then have nf: "\<forall>q\<in>set pools. \<not> ?F q"
      using find_cases [of ?F pools] by simp
    show ?thesis
      using r None nf find_cases [of ?T pools p] search_refines_spec [OF assms]
      by (cases "find ?T pools") auto
  next
    case (Some a)
    then have "a \<in> set pools \<and> ?F a"
      using find_cases [of ?F pools a] by simp
    then show ?thesis
      using r Some search_refines_spec [OF assms] by auto
  qed
qed

theorem search_pool_containing_dir_result_witness:
  "canonical plain_realpath
   \<and> search_pool_containing_dir plain_realpath thin_host [pool_thin, pool_fs]
        ''/data/pool1/sub/dir'' = Inr (Some pool_fs)
   \<and> filesystem_match plain_realpath (plain_realpath ''/data/pool1/sub/dir'') pool_fs
   \<and> thin_match thin_host (plain_realpath ''/data/pool1/sub/dir'') pool_thin
   \<and> search_pool_containing_dir plain_realpath thin_host [pool_thin, pool_fs]
        ''/data/pool10'' = Inr (Some pool_thin)
   \<and> \<not> filesystem_match plain_realpath (plain_realpath ''/data/pool10'') pool_fs
   \<and> search_pool_containing_dir plain_realpath plain_host [pool_thin, pool_fs]
        ''/data/pool10'' = Inr None"
  using
    search_pool_containing_dir_result [OF canonical_plain, where thin_pool_of = thin_host
      and pools = "[pool_thin, pool_fs]" and d = "''/data/pool1/sub/dir''" and p = pool_fs]
    search_pool_containing_dir_result [OF canonical_plain, where thin_pool_of = thin_host
      and pools = "[pool_thin, pool_fs]" and d = "''/data/pool10''" and p = pool_thin]
    search_pool_containing_dir_result [OF canonical_plain, where thin_pool_of = plain_host
      and pools = "[pool_thin, pool_fs]" and d = "''/data/pool10''"]
    search_example_filesystem search_example_thin search_example_none canonical_plain
  by (auto simp: thin_match_def filesystem_match_def thin_host_def pool_thin_def pool_fs_def)

section \<open>Removal of the volumes of a VM\<close>

lemma run_trace: "trace (snd (run ev b s)) = trace s @ [ev]"
  by (simp add: run_def split: prod.splits)

lemma run_fst: "fst (run ev b s) = fst (b (dir s))"
  by (simp add: run_def split: prod.splits)

lemma run_volumes: "volumes (snd (run ev b s)) = volumes s"
  by (simp add: run_def split: prod.splits)

lemma monotone_run: "monotone_task (run ev b)"
  by (simp add: monotone_task_def run_trace)

lemma records_run: "records ev (run ev b)"
  by (simp add: records_def run_trace)

lemma raises_only_OSError_run:
  "remove_raises_only_OSError D v \<Longrightarrow> Volume_remove D v = Coroutine b \<Longrightarrow>
   raises_only_OSError (run (Ran_remove v) b)"
  unfolding remove_raises_only_OSError_def raises_only_OSError_def run_fst
  by (metis body_of.simps(2) prod.collapse)

lemma settle_Coro_snd: "snd (settle (Coro t # vs) s) = snd (settle vs (snd (t s)))"
  by (simp split: prod.splits)

lemma settle_Coro_fst:
  "fst (settle (Coro t # vs) s)
     = (case fst (t s) of Inl e \<Rightarrow> [e] | Inr x \<Rightarrow> []) @ fst (settle vs (snd (t s)))"
  by (simp split: prod.splits)

lemma settle_prefix:
  "list_all (on_task monotone_task) vs \<Longrightarrow> prefix (trace s) (trace (snd (settle vs s)))"
proof (induction vs arbitrary: s)
  case Nil
  then show ?case by simp
next
  case (Cons a vs)
  show ?case
  proof (cases a)
    case (Value x)
    then show ?thesis using Cons by simp
  next
    case (Coro t)
    have "prefix (trace s) (trace (snd (t s)))"
      using Cons.prems Coro by (simp add: monotone_task_def)
    moreover have "prefix (trace (snd (t s))) (trace (snd (settle vs (snd (t s)))))"
      using Cons.IH Cons.prems by simp
    ultimately show ?thesis
      unfolding Coro settle_Coro_snd by (rule prefix_order.trans)
  qed
qed

lemma settle_records:
  "list_all (on_task monotone_task) vs \<Longrightarrow> list_ex (is_task (records ev)) vs \<Longrightarrow>
   ev \<in> set (trace (snd (settle vs s)))"
proof (induction vs arbitrary: s)
  case Nil
  then show ?case by simp
next
  case (Cons a vs)
  have mono: "list_all (on_task monotone_task) vs" using Cons.prems by simp
  show ?case
  proof (cases a)
    case (Value x)
    then show ?thesis using Cons by simp
  next
    case (Coro t)
    show ?thesis
    proof (cases "records ev t")
      case True
      then have "ev \<in> set (trace (snd (t s)))" by (simp add: records_def)
      moreover have "prefix (trace (snd (t s))) (trace (snd (settle vs (snd (t s)))))"
        by (rule settle_prefix [OF mono])
      ultimately show ?thesis
        unfolding Coro settle_Coro_snd using set_mono_prefix by blast
    next
      case False
      then have "list_ex (is_task (records ev)) vs" using Cons.prems Coro by simp
      then show ?thesis
        unfolding Coro settle_Coro_snd using Cons.IH mono by blast
    qed
  qed
qed

lemma settle_errors:
  "list_all (on_task raises_only_OSError) vs \<Longrightarrow> e \<in> set (fst (settle vs s)) \<Longrightarrow> is_OSError e"
proof (induction vs arbitrary: s)
  case Nil
  then show ?case by simp
next
  case (Cons a vs)
  show ?case
  proof (cases a)
    case (Value x)
    then show ?thesis using Cons by simp
  next
    case (Coro t)
    have here: "fst (t s) = Inl e \<Longrightarrow> is_OSError e"
      using Cons.prems(1) Coro by (simp add: raises_only_OSError_def)
    have there: "e \<in> set (fst (settle vs (snd (t s)))) \<Longrightarrow> is_OSError e"
      using Cons.IH Cons.prems(1) by simp
    from Cons.prems(2) have "fst (t s) = Inl e \<or> e \<in> set (fst (settle vs (snd (t s))))"
      unfolding Coro settle_Coro_fst by (auto split: sum.splits)
    then show ?thesis using here there by blast
  qed
qed

lemma void_coros_maybe_fst:
  "fst (void_coros_maybe vs s) = (case fst (settle vs s) of [] \<Rightarrow> Inr () | e # es \<Rightarrow> Inl e)"
  by (simp add: void_coros_maybe_def split: prod.splits list.splits)

lemma void_coros_maybe_snd: "snd (void_coros_maybe vs s) = snd (settle vs s)"
  by (simp add: void_coros_maybe_def split: prod.splits list.splits)

lemma remove_volumes_Plain:
  "Volume_remove D vol = Plain b \<Longrightarrow>
   remove_volumes D (vol # vols) results s =
     (case fst (run (Ran_remove vol) b s) of
        Inr u \<Rightarrow> remove_volumes D vols (results @ [Value u]) (snd (run (Ran_remove vol) b s))
      | Inl e \<Rightarrow>
          if is_OSError e
          then remove_volumes D vols results (logged vol e (snd (run (Ran_remove vol) b s)))
          else (Inl e, snd (run (Ran_remove vol) b s)))"
  by (simp add: logged_def split: prod.splits sum.splits)

lemma remove_volumes_Coroutine:
  "Volume_remove D vol = Coroutine b \<Longrightarrow>
   remove_volumes D (vol # vols) results s =
     remove_volumes D vols (results @ [Coro (run (Ran_remove vol) b)]) s"
  by simp

declare remove_volumes.simps(2) [simp del]

lemma logged_trace:
  "trace (logged vol e s)
     = trace s @ [Log_exception ''Failed to remove volume %s'' [Arg_str (name vol), Arg_exn e]]"
  by (simp add: logged_def)

lemma logged_volumes: "volumes (logged vol e s) = volumes s"
  by (simp add: logged_def)

lemma remove_volumes_succeeds:
  "\<forall>v\<in>set vols. remove_raises_only_OSError D v \<Longrightarrow>
   \<exists>rs s1. remove_volumes D vols results s = (Inr rs, s1)"
proof (induction vols arbitrary: results s)
  case Nil
  then show ?case by simp
next
  case (Cons vol vols)
  have only: "remove_raises_only_OSError D vol"
    and rest: "\<forall>v\<in>set vols. remove_raises_only_OSError D v"
    using Cons.prems by auto
  show ?case
  proof (cases "Volume_remove D vol")
    case (Plain b)
    show ?thesis
    proof (cases "fst (run (Ran_remove vol) b s)")
      case (Inl e)
      then have "fst (b (dir s)) = Inl e" by (simp add: run_fst)
      then have "body_of (Volume_remove D vol) (dir s) = (Inl e, snd (b (dir s)))"
        using Plain by (metis body_of.simps(1) prod.collapse)
      then have "is_OSError e"
        using only unfolding remove_raises_only_OSError_def by blast
      then show ?thesis
        using Cons.IH [OF rest] by (simp add: remove_volumes_Plain [OF Plain] Inl)
    next
      case (Inr u)
      then show ?thesis
        using Cons.IH [OF rest] by (simp add: remove_volumes_Plain [OF Plain] Inr)
    qed
  next
    case (Coroutine b)
    then show ?thesis
      using Cons.IH [OF rest] by (simp add: remove_volumes_Coroutine [OF Coroutine])
  qed
qed

lemma remove_volumes_extends:
  "remove_volumes D vols results s = (Inr rs, s1) \<Longrightarrow>
   set results \<subseteq> set rs \<and> prefix (trace s) (trace s1) \<and> volumes s1 = volumes s"
proof (induction vols arbitrary: results s)
  case Nil
  then show ?case by simp
next
  case (Cons vol vols)
  show ?case
  proof (cases "Volume_remove D vol")
    case (Plain b)
    let ?s' = "snd (run (Ran_remove vol) b s)"
    have p: "prefix (trace s) (trace ?s')" by (simp add: run_trace)
    have v: "volumes ?s' = volumes s" by (simp add: run_volumes)
    show ?thesis
    proof (cases "fst (run (Ran_remove vol) b s)")
      case (Inl e)
      then have os: "is_OSError e" and
        rec: "remove_volumes D vols results (logged vol e ?s') = (Inr rs, s1)"
        using Cons.prems by (auto simp: remove_volumes_Plain [OF Plain] split: if_splits)
      from Cons.IH [OF rec] have
        "set results \<subseteq> set rs" "prefix (trace (logged vol e ?s')) (trace s1)"
        "volumes s1 = volumes (logged vol e ?s')" by auto
      moreover have "prefix (trace s) (trace (logged vol e ?s'))"
        by (simp add: logged_trace run_trace)
      ultimately show ?thesis
        using v by (auto simp: logged_volumes intro: prefix_order.trans)
    next
      case (Inr u)
      then have rec: "remove_volumes D vols (results @ [Value u]) ?s' = (Inr rs, s1)"
        using Cons.prems by (simp add: remove_volumes_Plain [OF Plain])
      from Cons.IH [OF rec] have
        "set (results @ [Value u]) \<subseteq> set rs" "prefix (trace ?s') (trace s1)"
        "volumes s1 = volumes ?s'" by auto
      then show ?thesis
        using p v by (auto intro: prefix_order.trans)
    qed
  next
    case (Coroutine b)
    have rec: "remove_volumes D vols (results @ [Coro (run (Ran_remove vol) b)]) s = (Inr rs, s1)"
      using Cons.prems by (simp add: remove_volumes_Coroutine [OF Coroutine])
    from Cons.IH [OF rec] show ?thesis by auto
  qed
qed

lemma remove_volumes_monotone:
  "remove_volumes D vols results s = (Inr rs, s1) \<Longrightarrow>
   list_all (on_task monotone_task) results \<Longrightarrow> list_all (on_task monotone_task) rs"
proof (induction vols arbitrary: results s)
  case Nil
  then show ?case by simp
next
  case (Cons vol vols)
  show ?case
  proof (cases "Volume_remove D vol")
    case (Plain b)
    show ?thesis
    proof (cases "fst (run (Ran_remove vol) b s)")
      case (Inl e)
      then show ?thesis
        using Cons.prems Cons.IH
        by (auto simp: remove_volumes_Plain [OF Plain] split: if_splits)
    next
      case (Inr u)
      then have rec: "remove_volumes D vols (results @ [Value u])
          (snd (run (Ran_remove vol) b s)) = (Inr rs, s1)"
        using Cons.prems by (simp add: remove_volumes_Plain [OF Plain])
      show ?thesis
        by (rule Cons.IH [OF rec]) (simp add: Cons.prems(2))
    qed
  next
    case (Coroutine b)
    have rec: "remove_volumes D vols (results @ [Coro (run (Ran_remove vol) b)]) s = (Inr rs, s1)"
      using Cons.prems by (simp add: remove_volumes_Coroutine [OF Coroutine])
    show ?thesis
      by (rule Cons.IH [OF rec]) (simp add: Cons.prems(2) monotone_run)
  qed
qed

lemma remove_volumes_only_OSError:
  "\<forall>v\<in>set vols. remove_raises_only_OSError D v \<Longrightarrow>
   remove_volumes D vols results s = (Inr rs, s1) \<Longrightarrow>
   list_all (on_task raises_only_OSError) results \<Longrightarrow> list_all (on_task raises_only_OSError) rs"
proof (induction vols arbitrary: results s)
  case Nil
  then show ?case by simp
next
  case (Cons vol vols)
  have only: "remove_raises_only_OSError D vol"
    and rest: "\<forall>v\<in>set vols. remove_raises_only_OSError D v"
    using Cons.prems(1) by auto
  show ?case
  proof (cases "Volume_remove D vol")
    case (Plain b)
    show ?thesis
    proof (cases "fst (run (Ran_remove vol) b s)")
      case (Inl e)
      then show ?thesis
        using Cons.prems(2,3) Cons.IH [OF rest]
        by (auto simp: remove_volumes_Plain [OF Plain] split: if_splits)
    next
      case (Inr u)
      then have rec: "remove_volumes D vols (results @ [Value u])
          (snd (run (Ran_remove vol) b s)) = (Inr rs, s1)"
        using Cons.prems(2) by (simp add: remove_volumes_Plain [OF Plain])
      show ?thesis
        by (rule Cons.IH [OF rest rec]) (simp add: Cons.prems(3))
    qed
  next
    case (Coroutine b)
    have rec: "remove_volumes D vols (results @ [Coro (run (Ran_remove vol) b)]) s = (Inr rs, s1)"
      using Cons.prems(2) by (simp add: remove_volumes_Coroutine [OF Coroutine])
    show ?thesis
      by (rule Cons.IH [OF rest rec])
         (simp add: Cons.prems(3) raises_only_OSError_run [OF only Coroutine])
  qed
qed

lemma remove_volumes_calls_each:
  "remove_volumes D vols results s = (Inr rs, s1) \<Longrightarrow> v \<in> set vols \<Longrightarrow>
   Ran_remove v \<in> set (trace s1) \<or> list_ex (is_task (records (Ran_remove v))) rs"
proof (induction vols arbitrary: results s)
  case Nil
  then show ?case by simp
next
  case (Cons vol vols)
  show ?case
  proof (cases "Volume_remove D vol")
    case (Plain b)
    let ?s' = "snd (run (Ran_remove vol) b s)"
    have here: "Ran_remove vol \<in> set (trace ?s')" by (simp add: run_trace)
    show ?thesis
    proof (cases "fst (run (Ran_remove vol) b s)")
      case (Inl e)
      then have rec: "remove_volumes D vols results (logged vol e ?s') = (Inr rs, s1)"
        using Cons.prems(1) by (auto simp: remove_volumes_Plain [OF Plain] split: if_splits)
      show ?thesis
      proof (cases "v = vol")
        case True
        have "prefix (trace (logged vol e ?s')) (trace s1)"
          using remove_volumes_extends [OF rec] by simp
        then have "set (trace (logged vol e ?s')) \<subseteq> set (trace s1)"
          by (rule set_mono_prefix)
        then show ?thesis using here True by (auto simp: logged_trace)
      next
        case False
        then show ?thesis using Cons.IH [OF rec] Cons.prems(2) by simp
      qed
    next
      case (Inr u)
      then have rec: "remove_volumes D vols (results @ [Value u]) ?s' = (Inr rs, s1)"
        using Cons.prems(1) by (simp add: remove_volumes_Plain [OF Plain])
      show ?thesis
      proof (cases "v = vol")
        case True
        have "prefix (trace ?s') (trace s1)"
          using remove_volumes_extends [OF rec] by simp
        then have "set (trace ?s') \<subseteq> set (trace s1)"
          by (rule set_mono_prefix)
        then show ?thesis using here True by auto
      next
        case False
        then show ?thesis using Cons.IH [OF rec] Cons.prems(2) by simp
      qed
    qed
  next
    case (Coroutine b)
    have rec: "remove_volumes D vols (results @ [Coro (run (Ran_remove vol) b)]) s = (Inr rs, s1)"
      using Cons.prems(1) by (simp add: remove_volumes_Coroutine [OF Coroutine])
    show ?thesis
    proof (cases "v = vol")
      case True
      have "Coro (run (Ran_remove vol) b) \<in> set rs"
        using remove_volumes_extends [OF rec] by auto
      moreover have "is_task (records (Ran_remove v)) (Coro (run (Ran_remove vol) b))"
        using True by (simp add: records_run)
      ultimately show ?thesis unfolding list_ex_iff by blast
    next
      case False
      then show ?thesis using Cons.IH [OF rec] Cons.prems(2) by simp
    qed
  qed
qed

lemma Storage_remove_unfold:
  "remove_volumes D (map snd (volumes s)) [] s = (Inr rs, s1) \<Longrightarrow>
   Storage_remove D s =
     (case fst (settle rs s1) of
        [] \<Rightarrow> (Inr (), snd (settle rs s1))
      | e # es \<Rightarrow>
          if is_OSError e
          then (Inr (), (snd (settle rs s1))
                 \<lparr>trace := trace (snd (settle rs s1)) @
                    [Log_exception ''Failed to remove some volume'' [Arg_exn e]]\<rparr>)
          else (Inl e, snd (settle rs s1)))"
  by (simp add: Storage_remove_def void_coros_maybe_def split: prod.splits list.splits)

text \<open>
  What holds of \<^verbatim>\<open>Storage.remove\<close> when every exception that the \<^verbatim>\<open>remove()\<close> of a
  registered volume raises is an \<^verbatim>\<open>OSError\<close>: it returns normally and the body of
  \<^verbatim>\<open>remove()\<close> of every registered volume has run.
\<close>

lemma Storage_remove_io_errors:
  assumes only: "\<forall>v\<in>set (map snd (volumes s)). remove_raises_only_OSError D v"
  shows "fst (Storage_remove D s) = Inr ()
    \<and> (\<forall>v\<in>set (map snd (volumes s)). Ran_remove v \<in> set (trace (snd (Storage_remove D s))))"
proof -
  let ?vols = "map snd (volumes s)"
  from remove_volumes_succeeds [OF only] obtain rs s1 where
    rv: "remove_volumes D ?vols [] s = (Inr rs, s1)" by blast
  let ?es = "fst (settle rs s1)"
  let ?s2 = "snd (settle rs s1)"
  let ?final = "snd (Storage_remove D s)"
  have mono: "list_all (on_task monotone_task) rs"
    by (rule remove_volumes_monotone [OF rv]) simp
  have oserr: "list_all (on_task raises_only_OSError) rs"
    by (rule remove_volumes_only_OSError [OF only rv]) simp
  have es: "\<forall>e\<in>set ?es. is_OSError e"
    using settle_errors [OF oserr] by blast
  have result: "fst (Storage_remove D s) = Inr ()"
    using es by (cases ?es) (simp_all add: Storage_remove_unfold [OF rv])
  have p12: "set (trace s1) \<subseteq> set (trace ?s2)"
    using settle_prefix [OF mono] by (rule set_mono_prefix)
  have p23: "set (trace ?s2) \<subseteq> set (trace ?final)"
    using es by (cases ?es) (auto simp: Storage_remove_unfold [OF rv])
  have ran: "Ran_remove v \<in> set (trace ?final)" if "v \<in> set ?vols" for v
  proof -
    from remove_volumes_calls_each [OF rv that]
    have "Ran_remove v \<in> set (trace ?s2)"
      using p12 settle_records [OF mono] by blast
    then show ?thesis using p23 by blast
  qed
  show ?thesis
    using result ran by blast
qed

text \<open>
  C2 fails on the code. With two registered volumes, when the plain \<^verbatim>\<open>remove()\<close> of
  the first raises \<^verbatim>\<open>StoragePoolException\<close>, \<^verbatim>\<open>Storage.remove()\<close> raises it to its
  caller and the \<^verbatim>\<open>remove()\<close> of the second volume is never called. When the failures
  are I/O errors, they are caught and \<^verbatim>\<open>Storage.remove()\<close> returns, but each call of
  \<^verbatim>\<open>log.exception\<close> passes one argument more than its format has conversions, so
  neither failure is emitted as a log line.
\<close>

theorem Storage_remove_failures:
  "fst (Storage_remove busy_driver vm_two) = Inl (StoragePoolException ''volume in use'')
   \<and> trace (snd (Storage_remove busy_driver vm_two)) = [Ran_remove vm_root]
   \<and> Ran_remove vm_private \<notin> set (trace (snd (Storage_remove busy_driver vm_two)))
   \<and> fst (Storage_remove io_error_driver vm_two) = Inr ()
   \<and> trace (snd (Storage_remove io_error_driver vm_two))
       = [Ran_remove vm_root,
          Log_exception ''Failed to remove volume %s''
            [Arg_str ''root'', Arg_exn (OSError ''Input/output error'')],
          Ran_remove vm_private,
          Log_exception ''Failed to remove some volume''
            [Arg_exn (OSError ''Device or resource busy'')]]
   \<and> list_all (\<lambda>ev. \<not> emits ev) (trace (snd (Storage_remove io_error_driver vm_two)))"
  by (simp add: Storage_remove_def busy_driver_def io_error_driver_def file_driver_def
      vm_two_def vm_root_def vm_private_def run_def remove_volumes.simps
      void_coros_maybe_def)

section \<open>Rollback of a failed clone\<close>

lemma exit_volumes_Plain:
  "Volume_remove D vol = Plain b \<Longrightarrow>
   exit_volumes D (vol # vs) s =
     (case fst (run (Ran_remove vol) b s) of
        Inr u \<Rightarrow> exit_volumes D vs (snd (run (Ran_remove vol) b s))
      | Inl e \<Rightarrow>
          if is_Exception e then exit_volumes D vs (snd (run (Ran_remove vol) b s))
          else (Inl e, snd (run (Ran_remove vol) b s)))"
  by (simp split: prod.splits sum.splits)

lemma exit_volumes_Coroutine:
  "Volume_remove D vol = Coroutine b \<Longrightarrow> exit_volumes D (vol # vs) s = exit_volumes D vs s"
  by simp

declare exit_volumes.simps(2) [simp del]

lemma exit_volumes_plain:
  "\<forall>v\<in>set vs. plain_remove D v \<Longrightarrow>
   fst (exit_volumes D vs s) = Inr ()
   \<and> prefix (trace s) (trace (snd (exit_volumes D vs s)))
   \<and> (\<forall>v\<in>set vs. Ran_remove v \<in> set (trace (snd (exit_volumes D vs s))))
   \<and> volumes (snd (exit_volumes D vs s)) = volumes s"
proof (induction vs arbitrary: s)
  case Nil
  then show ?case by simp
next
  case (Cons vol vs)
  from Cons.prems obtain b where
    pl: "Volume_remove D vol = Plain b" and ex: "\<forall>d e d'. b d = (Inl e, d') \<longrightarrow> is_Exception e"
    by (auto simp: plain_remove_def)
  have rest: "\<forall>v\<in>set vs. plain_remove D v" using Cons.prems by simp
  let ?s' = "snd (run (Ran_remove vol) b s)"
  have caught: "is_Exception e" if "fst (run (Ran_remove vol) b s) = Inl e" for e
    using that ex unfolding run_fst by (metis prod.collapse)
  have step: "exit_volumes D (vol # vs) s = exit_volumes D vs ?s'"
    using caught
    by (cases "fst (run (Ran_remove vol) b s)") (simp_all add: exit_volumes_Plain [OF pl])
  note ih = Cons.IH [OF rest, of ?s']
  have here: "Ran_remove vol \<in> set (trace ?s')" and p: "prefix (trace s) (trace ?s')"
    by (simp_all add: run_trace)
  have sub: "set (trace ?s') \<subseteq> set (trace (snd (exit_volumes D vs ?s')))"
    using ih by (intro set_mono_prefix) simp
  have "prefix (trace s) (trace (snd (exit_volumes D vs ?s')))"
    using p ih by (blast intro: prefix_order.trans)
  then show ?case
    unfolding step using ih here sub by (auto simp: run_volumes)
qed

lemma exit_volumes_coroutine:
  "\<forall>v\<in>set vs. coroutine_remove D v \<Longrightarrow> exit_volumes D vs s = (Inr (), s)"
proof (induction vs)
  case Nil
  then show ?case by simp
next
  case (Cons vol vs)
  then obtain b where "Volume_remove D vol = Coroutine b"
    by (auto simp: coroutine_remove_def)
  then show ?case using Cons by (simp add: exit_volumes_Coroutine)
qed

text \<open>
  What the rollback does when the \<^verbatim>\<open>remove\<close> of every registered volume is a plain
  method: the body of each runs, and then the clone raises its own failure when the
  directory is empty and is removed, and the \<^verbatim>\<open>OSError\<close> of \<^verbatim>\<open>os.rmdir\<close>
  otherwise, leaving the directory.
\<close>

lemma Storage_clone_rollback:
  assumes body: "void_coros_maybe (clone_tasks D src_vm (volume_config s)) (s\<lparr>volumes := []\<rparr>)
                   = (Inl e, s1)"
    and plain: "\<forall>v\<in>set (map snd (volumes s1)). plain_remove D v"
  shows "(\<forall>v\<in>set (map snd (volumes s1)).
            Ran_remove v \<in> set (trace (snd (Storage_clone D src_vm s))))
     \<and> (dir (snd (exit_volumes D (map snd (volumes s1)) s1)) = Some [] \<longrightarrow>
            fst (Storage_clone D src_vm s) = Inl e
            \<and> dir (snd (Storage_clone D src_vm s)) = None)
     \<and> (dir (snd (exit_volumes D (map snd (volumes s1)) s1)) \<noteq> Some [] \<longrightarrow>
            is_OSError (projl (fst (Storage_clone D src_vm s)))
            \<and> isl (fst (Storage_clone D src_vm s))
            \<and> dir (snd (Storage_clone D src_vm s))
                = dir (snd (exit_volumes D (map snd (volumes s1)) s1)))"
proof -
  let ?x = "exit_volumes D (map snd (volumes s1)) s1"
  note ex = exit_volumes_plain [OF plain, of s1]
  obtain u s2 where x: "?x = (Inr u, s2)"
    using ex by (cases ?x) auto
  have clone: "Storage_clone D src_vm s =
      (case os_rmdir s2 of (Inl e', s3) \<Rightarrow> (Inl e', s3) | (Inr u, s3) \<Rightarrow> (Inl e, s3))"
    by (simp add: Storage_clone_def with_VmCreationManager_def body VmCreationManager_exit_def x)
  have tr: "trace (snd (os_rmdir s2)) = trace s2"
    by (simp add: os_rmdir_def split: option.splits list.splits)
  have ran: "\<forall>v\<in>set (map snd (volumes s1)). Ran_remove v \<in> set (trace s2)"
    using ex x by simp
  have t: "trace (snd (Storage_clone D src_vm s)) = trace s2"
    using tr by (cases "os_rmdir s2") (auto simp: clone split: sum.splits)
  show ?thesis
    using ran t x
    by (auto simp: clone os_rmdir_def split: option.splits list.splits)
qed

text \<open>
  C1 fails on the code. Cloning \<^verbatim>\<open>root\<close> and \<^verbatim>\<open>private\<close> with \<^verbatim>\<open>import_volume\<close>
  failing for \<^verbatim>\<open>private\<close> (a \<^verbatim>\<open>StoragePoolException\<close>): with the driver that keeps
  its images in the directory of the VM, the image of \<^verbatim>\<open>private\<close>, created but not
  registered, stays, \<^verbatim>\<open>os.rmdir\<close> raises \<^verbatim>\<open>OSError\<close>, the directory remains and the
  \<^verbatim>\<open>OSError\<close> is what the caller gets; with the driver whose methods are coroutine
  functions, the \<^verbatim>\<open>remove()\<close> of the registered volume \<^verbatim>\<open>root\<close> never runs.
\<close>

theorem Storage_clone_rollback_failures:
  "fst (void_coros_maybe (clone_tasks file_driver src_vm_volumes (volume_config vm_new))
          (vm_new\<lparr>volumes := []\<rparr>))
     = Inl (StoragePoolException ''import failed'')
   \<and> Storage_clone file_driver src_vm_volumes vm_new
     = (Inl (OSError ''Directory not empty''),
        vm_new\<lparr>volumes := [(''root'', vm_root)], dir := Some [''private.img''],
          trace := [Ran_create vm_root, Ran_import_volume vm_root tpl_root,
                    Ran_create vm_private, Ran_import_volume vm_private tpl_private,
                    Ran_remove vm_root]\<rparr>)
   \<and> Storage_clone coroutine_driver src_vm_volumes vm_new
     = (Inl (StoragePoolException ''import failed''),
        vm_new\<lparr>volumes := [(''root'', vm_root)], dir := None,
          trace := [Ran_create vm_root, Ran_import_volume vm_root tpl_root,
                    Ran_create vm_private, Ran_import_volume vm_private tpl_private]\<rparr>)"
  by (simp add: Storage_clone_def with_VmCreationManager_def VmCreationManager_exit_def
      void_coros_maybe_def clone_tasks_def Storage_clone_volume_def call_await_def os_rmdir_def
      coroutine_driver_def file_driver_def src_vm_volumes_def vm_new_def vm_root_def
      vm_private_def tpl_root_def tpl_private_def run_def exit_volumes.simps)

end
